theory Spec2Isabelle
  imports Main "HOL-Library.Word"
begin

unbundle bit_operations_syntax

section \<open>Data model of the RkISP1 pipeline handler\<close>

text \<open>
  The model follows \<^verbatim>\<open>src/libcamera/pipeline/rkisp1/rkisp1.cpp\<close>. C++ pointers are
  addresses (natural numbers); the objects they point to live in explicit stores
  (\<open>buffers\<close>, \<open>requests\<close>), and an address with no object behind it is an invalid
  pointer. \<^verbatim>\<open>unsigned int\<close> is a 32-bit word. Every call into a collaborator whose
  code is outside the file (video devices, IPA, base pipeline handler, sensor, timeline
  notifications) is appended to the \<open>calls\<close> trace; every \<^verbatim>\<open>LOG\<close> line is appended
  to \<open>logs\<close>. Results returned by the video devices are arguments of the operation that
  reads them.
\<close>

type_synonym u32 = "32 word"
type_synonym BufferPtr = nat
type_synonym RequestPtr = nat
type_synonym CameraPtr = nat
type_synonym StreamPtr = nat
type_synonym ControlList = "(nat \<times> int) list"

datatype error = NullDeref | InvalidPointer | OutOfRange | AssertFailed | FatalLog

datatype RkISP1ActionType = SetSensor | SOE | QueueBuffers

record RkISP1FrameInfo =
  frame :: u32
  request :: RequestPtr
  paramBuffer :: BufferPtr
  statBuffer :: BufferPtr
  videoBuffer :: BufferPtr
  paramFilled :: bool
  paramDequeued :: bool
  metadataProcessed :: bool

text \<open>
  Modelled from the spec: the fields of \<^verbatim>\<open>Buffer\<close> that rkisp1.cpp reads through
  \<^verbatim>\<open>index()\<close>, \<^verbatim>\<open>sequence()\<close>, \<^verbatim>\<open>timestamp()\<close> and \<^verbatim>\<open>request()\<close>
  (the header under src/ predates the last three). \<open>request' = None\<close> is the null
  pointer.
\<close>

record Buffer =
  index' :: u32
  sequence' :: u32
  timestamp' :: "64 word"
  request' :: "RequestPtr option"

text \<open>
  Modelled from the spec: the \<^verbatim>\<open>Request\<close> surface (request.h is not under src/):
  the buffer bound to each stream (\<^verbatim>\<open>findBuffer\<close>), the output buffers not yet
  completed (\<^verbatim>\<open>hasPendingBuffers\<close>), the controls and the result metadata.
\<close>

record Request =
  bufferMap' :: "StreamPtr \<rightharpoonup> BufferPtr"
  pending' :: "BufferPtr list"
  controls' :: ControlList
  metadata' :: ControlList

definition findBuffer :: "Request \<Rightarrow> StreamPtr \<Rightarrow> BufferPtr option" where
  "findBuffer r stream = bufferMap' r stream"

definition hasPendingBuffers :: "Request \<Rightarrow> bool" where
  "hasPendingBuffers r = (pending' r \<noteq> [])"

datatype VideoDevice = video_dev | param_dev | stat_dev

datatype Pool = StreamPool | ParamPool | StatPool

datatype MemoryType = InternalMemory | ExternalMemory

text \<open>
  Modelled from the spec: the IPA operation codes of \<^verbatim>\<open>ipa/rkisp1.h\<close> (not under
  src/); any other code is \<open>UnknownOperation\<close>.
\<close>

datatype RkISP1Operations =
    RKISP1_IPA_ACTION_V4L2_SET
  | RKISP1_IPA_ACTION_PARAM_FILLED
  | RKISP1_IPA_ACTION_METADATA
  | RKISP1_IPA_EVENT_SIGNAL_STAT_BUFFER
  | RKISP1_IPA_EVENT_QUEUE_REQUEST
  | UnknownOperation nat

record IPAOperationData =
  operation :: RkISP1Operations
  data :: "u32 list"
  controls :: "ControlList list"

record IPABuffer =
  ipabuf_id :: u32
  memory :: "Pool \<times> u32"

datatype FrameAction =
    RkISP1ActionSetSensor u32 ControlList
  | RkISP1ActionQueueBuffers u32

datatype Call =
    StreamOn VideoDevice
  | StreamOff VideoDevice
  | QueueBuffer VideoDevice BufferPtr
  | ExportBuffers VideoDevice Pool
  | ImportBuffers VideoDevice Pool
  | ReleaseBuffers VideoDevice
  | CreateBuffers Pool u32
  | IpaConfigure
  | IpaMapBuffers "IPABuffer list"
  | IpaUnmapBuffers "u32 list"
  | IpaProcessEvent IPAOperationData
  | SensorSetControls ControlList
  | NotifyStartOfExposure u32 "64 word"
  | BaseQueueRequest CameraPtr RequestPtr
  | CompleteBuffer CameraPtr RequestPtr BufferPtr
  | CompleteRequest CameraPtr RequestPtr

text \<open>
  The pipeline handler together with the data of its camera: \<open>frame'\<close>,
  \<open>frameInfo'\<close> (the \<^verbatim>\<open>std::map\<close> of RkISP1Frames, as its entries in key order),
  \<open>ipaBuffers'\<close> and \<open>timeline'\<close> (the actions scheduled and not yet reset) are the
  members of RkISP1CameraData; \<open>paramBuffers'\<close>, \<open>statBuffers'\<close> (the two
  \<^verbatim>\<open>std::queue\<close>s, front first) and \<open>activeCamera'\<close> those of
  PipelineHandlerRkISP1. \<open>brk\<close> is the next address \<^verbatim>\<open>new\<close> hands out.
\<close>

record Pipeline =
  frame' :: u32
  frameInfo' :: "(u32 \<times> RkISP1FrameInfo) list"
  ipaBuffers' :: "IPABuffer list"
  timeline' :: "FrameAction list"
  stream' :: StreamPtr
  paramBuffers' :: "BufferPtr list"
  statBuffers' :: "BufferPtr list"
  activeCamera' :: "CameraPtr option"
  buffers :: "BufferPtr \<rightharpoonup> Buffer"
  brk :: nat
  requests :: "RequestPtr \<rightharpoonup> Request"
  calls :: "Call list"
  logs :: "string list"

definition RKISP1_PARAM_BASE :: u32 where
  "RKISP1_PARAM_BASE = 0x100"

definition RKISP1_STAT_BASE :: u32 where
  "RKISP1_STAT_BASE = 0x200"

definition ENOENT :: int where
  "ENOENT = 2"

definition call :: "Call \<Rightarrow> Pipeline \<Rightarrow> Pipeline" where
  "call c s = s\<lparr>calls := calls s @ [c]\<rparr>"

definition LOG :: "string \<Rightarrow> Pipeline \<Rightarrow> Pipeline" where
  "LOG msg s = s\<lparr>logs := logs s @ [msg]\<rparr>"

section \<open>RkISP1Frames: the frame table\<close>

text \<open>\<^verbatim>\<open>std::map\<close>: lookup of a key, \<^verbatim>\<open>m[k] = v\<close>, \<^verbatim>\<open>erase(k)\<close>.\<close>

fun map_find :: "u32 \<Rightarrow> (u32 \<times> 'v) list \<Rightarrow> 'v option" where
  "map_find k [] = None"
| "map_find k ((k', v) # m) = (if k = k' then Some v else map_find k m)"

fun map_assign :: "u32 \<Rightarrow> 'v \<Rightarrow> (u32 \<times> 'v) list \<Rightarrow> (u32 \<times> 'v) list" where
  "map_assign k v [] = [(k, v)]"
| "map_assign k v ((k', v') # m) =
     (if k < k' then (k, v) # (k', v') # m
      else if k = k' then (k, v) # m
      else (k', v') # map_assign k v m)"

fun map_erase :: "u32 \<Rightarrow> (u32 \<times> 'v) list \<Rightarrow> (u32 \<times> 'v) list" where
  "map_erase k [] = []"
| "map_erase k ((k', v) # m) = (if k = k' then m else (k', v) # map_erase k m)"

text \<open>A write through a \<^verbatim>\<open>RkISP1FrameInfo *\<close> changes the object the map entry owns.\<close>

fun info_update ::
  "u32 \<Rightarrow> (RkISP1FrameInfo \<Rightarrow> RkISP1FrameInfo) \<Rightarrow> (u32 \<times> RkISP1FrameInfo) list
    \<Rightarrow> (u32 \<times> RkISP1FrameInfo) list" where
  "info_update k f [] = []"
| "info_update k f ((k', v) # m) =
     (if k = k' then (k', f v) # m else (k', v) # info_update k f m)"

text \<open>
  The three \<^verbatim>\<open>RkISP1Frames::find\<close> overloads; each logs when nothing is found
  (the log texts are the source's, with \<^verbatim>\<open>Can't\<close> written in two words and
  without the values streamed into them). The lookups by buffer and by request walk the
  entries in key order and return the first match, as a map entry (key and FrameInfo).
\<close>

definition find_frame :: "Pipeline \<Rightarrow> u32 \<Rightarrow> RkISP1FrameInfo option \<times> Pipeline" where
  "find_frame s f =
     (case map_find f (frameInfo' s) of
        Some info \<Rightarrow> (Some info, s)
      | None \<Rightarrow> (None, LOG ''Can not locate info from frame'' s))"

fun scan_buffer :: "BufferPtr \<Rightarrow> (u32 \<times> RkISP1FrameInfo) list \<Rightarrow> (u32 \<times> RkISP1FrameInfo) option" where
  "scan_buffer b [] = None"
| "scan_buffer b ((k, info) # m) =
     (if paramBuffer info = b \<or> statBuffer info = b \<or> videoBuffer info = b
      then Some (k, info) else scan_buffer b m)"

definition find_buffer ::
  "Pipeline \<Rightarrow> BufferPtr \<Rightarrow> (u32 \<times> RkISP1FrameInfo) option \<times> Pipeline" where
  "find_buffer s b =
     (case scan_buffer b (frameInfo' s) of
        Some e \<Rightarrow> (Some e, s)
      | None \<Rightarrow> (None, LOG ''Can not locate info from buffer'' s))"

fun scan_request :: "RequestPtr \<Rightarrow> (u32 \<times> RkISP1FrameInfo) list \<Rightarrow> (u32 \<times> RkISP1FrameInfo) option" where
  "scan_request r [] = None"
| "scan_request r ((k, info) # m) =
     (if request info = r then Some (k, info) else scan_request r m)"

definition find_request ::
  "Pipeline \<Rightarrow> RequestPtr \<Rightarrow> (u32 \<times> RkISP1FrameInfo) option \<times> Pipeline" where
  "find_request s r =
     (case scan_request r (frameInfo' s) of
        Some e \<Rightarrow> (Some e, s)
      | None \<Rightarrow> (None, LOG ''Can not locate info from request'' s))"

text \<open>
  \<^verbatim>\<open>RkISP1Frames::create\<close>: the result is the new FrameInfo, or \<open>None\<close> for the null
  pointer. Reading the Request through an invalid pointer is a fault.
\<close>

definition create ::
  "Pipeline \<Rightarrow> u32 \<Rightarrow> RequestPtr \<Rightarrow> StreamPtr \<Rightarrow> error + (RkISP1FrameInfo option \<times> Pipeline)" where
  "create s f req stream =
     (case paramBuffers' s of
        [] \<Rightarrow> Inr (None, LOG ''Parameters buffer underrun'' s)
      | pb # prest \<Rightarrow>
        (case statBuffers' s of
           [] \<Rightarrow> Inr (None, LOG ''Statisitc buffer underrun'' s)
         | sb # srest \<Rightarrow>
           (case requests s req of
              None \<Rightarrow> Inl InvalidPointer
            | Some r \<Rightarrow>
              (case findBuffer r stream of
                 None \<Rightarrow> Inr (None, LOG ''Attempt to queue request with invalid stream'' s)
               | Some vb \<Rightarrow>
                 (let info = \<lparr>frame = f, request = req, paramBuffer = pb, statBuffer = sb,
                               videoBuffer = vb, paramFilled = False, paramDequeued = False,
                               metadataProcessed = False\<rparr>
                  in Inr (Some info,
                          s\<lparr>paramBuffers' := prest, statBuffers' := srest,
                            frameInfo' := map_assign f info (frameInfo' s)\<rparr>))))))"

definition destroy :: "Pipeline \<Rightarrow> u32 \<Rightarrow> int \<times> Pipeline" where
  "destroy s f =
     (case find_frame s f of
        (None, s1) \<Rightarrow> (- ENOENT, s1)
      | (Some info, s1) \<Rightarrow>
          (0, s1\<lparr>paramBuffers' := paramBuffers' s1 @ [paramBuffer info],
                 statBuffers' := statBuffers' s1 @ [statBuffer info],
                 frameInfo' := map_erase (frame info) (frameInfo' s1)\<rparr>))"

section \<open>Frame actions\<close>

text \<open>
  \<^verbatim>\<open>RkISP1ActionQueueBuffers::run\<close>. \<^verbatim>\<open>LOG(RkISP1, Fatal)\<close> aborts the process. The
  results of the three \<^verbatim>\<open>queueBuffer\<close> calls are not read.
\<close>

definition runQueueBuffers :: "Pipeline \<Rightarrow> u32 \<Rightarrow> error + Pipeline" where
  "runQueueBuffers s f =
     (case find_frame s f of
        (None, s1) \<Rightarrow> Inl FatalLog
      | (Some info, s1) \<Rightarrow>
          (let s2 = (if paramFilled info
                     then call (QueueBuffer param_dev (paramBuffer info)) s1
                     else LOG ''Parameters not ready on time for frame, ignore parameters.'' s1);
               s3 = call (QueueBuffer stat_dev (statBuffer info)) s2;
               s4 = call (QueueBuffer video_dev (videoBuffer info)) s3
           in Inr s4))"

text \<open>\<^verbatim>\<open>RkISP1ActionSetSensor::run\<close>.\<close>

definition runSetSensor :: "Pipeline \<Rightarrow> ControlList \<Rightarrow> error + Pipeline" where
  "runSetSensor s ctrls = Inr (call (SensorSetControls ctrls) s)"

section \<open>Buffer handling\<close>

text \<open>
  Modelled from the spec: \<^verbatim>\<open>PipelineHandler::completeBuffer\<close> of the base class (not
  under src/) marks the buffer completed in its Request, which stops reporting it as
  pending. \<^verbatim>\<open>PipelineHandler::completeRequest\<close> and the base
  \<^verbatim>\<open>PipelineHandler::queueRequest\<close> are recorded in \<open>calls\<close> only.
\<close>

definition completeBuffer :: "Pipeline \<Rightarrow> CameraPtr \<Rightarrow> RequestPtr \<Rightarrow> BufferPtr \<Rightarrow> error + Pipeline" where
  "completeBuffer s cam req b =
     (case requests s req of
        None \<Rightarrow> Inl InvalidPointer
      | Some r \<Rightarrow>
          Inr (call (CompleteBuffer cam req b)
                (s\<lparr>requests := (requests s)(req \<mapsto> r\<lparr>pending' := removeAll b (pending' r)\<rparr>)\<rparr>)))"

text \<open>
  \<^verbatim>\<open>PipelineHandlerRkISP1::tryCompleteRequest\<close>. \<^verbatim>\<open>cameraData(activeCamera_)\<close> has
  no camera to look up when \<open>activeCamera'\<close> is null.
\<close>

definition tryCompleteRequest :: "Pipeline \<Rightarrow> RequestPtr \<Rightarrow> error + Pipeline" where
  "tryCompleteRequest s req =
     (case activeCamera' s of
        None \<Rightarrow> Inl NullDeref
      | Some cam \<Rightarrow>
        (case find_request s req of
           (None, s1) \<Rightarrow> Inr s1
         | (Some (k, info), s1) \<Rightarrow>
           (case requests s1 req of
              None \<Rightarrow> Inl InvalidPointer
            | Some r \<Rightarrow>
                if hasPendingBuffers r then Inr s1
                else if \<not> metadataProcessed info then Inr s1
                else if \<not> paramDequeued info then Inr s1
                else Inr (snd (destroy (call (CompleteRequest cam req) s1) (frame info))))))"

definition bufferReady :: "Pipeline \<Rightarrow> BufferPtr \<Rightarrow> error + Pipeline" where
  "bufferReady s b =
     (case activeCamera' s of
        None \<Rightarrow> Inl AssertFailed
      | Some cam \<Rightarrow>
        (case buffers s b of
           None \<Rightarrow> Inl InvalidPointer
         | Some buf \<Rightarrow>
           (let s1 = call (NotifyStartOfExposure (sequence' buf) (timestamp' buf)) s;
                s2 = (if frame' s1 \<le> sequence' buf
                      then s1\<lparr>frame' := sequence' buf + 1\<rparr> else s1)
            in case request' buf of
                 None \<Rightarrow> Inl NullDeref
               | Some req \<Rightarrow>
                 (case completeBuffer s2 cam req b of
                    Inl e \<Rightarrow> Inl e
                  | Inr s3 \<Rightarrow> tryCompleteRequest s3 req))))"

definition paramReady :: "Pipeline \<Rightarrow> BufferPtr \<Rightarrow> error + Pipeline" where
  "paramReady s b =
     (case activeCamera' s of
        None \<Rightarrow> Inl AssertFailed
      | Some cam \<Rightarrow>
        (case find_buffer s b of
           (None, s1) \<Rightarrow> Inl NullDeref
         | (Some (k, info), s1) \<Rightarrow>
             tryCompleteRequest
               (s1\<lparr>frameInfo' := info_update k (\<lambda>i. i\<lparr>paramDequeued := True\<rparr>) (frameInfo' s1)\<rparr>)
               (request info)))"

definition statReady :: "Pipeline \<Rightarrow> BufferPtr \<Rightarrow> error + Pipeline" where
  "statReady s b =
     (case activeCamera' s of
        None \<Rightarrow> Inl AssertFailed
      | Some cam \<Rightarrow>
        (case find_buffer s b of
           (None, s1) \<Rightarrow> Inr s1
         | (Some (k, info), s1) \<Rightarrow>
           (case buffers s1 (statBuffer info) of
              None \<Rightarrow> Inl InvalidPointer
            | Some sbuf \<Rightarrow>
                Inr (call (IpaProcessEvent
                             \<lparr>operation = RKISP1_IPA_EVENT_SIGNAL_STAT_BUFFER,
                              data = [frame info, RKISP1_STAT_BASE OR index' sbuf],
                              controls = []\<rparr>) s1))))"

section \<open>IPA replies\<close>

definition metadataReady :: "Pipeline \<Rightarrow> u32 \<Rightarrow> ControlList \<Rightarrow> error + Pipeline" where
  "metadataReady s f metadata =
     (case find_frame s f of
        (None, s1) \<Rightarrow> Inr s1
      | (Some info, s1) \<Rightarrow>
        (case requests s1 (request info) of
           None \<Rightarrow> Inl InvalidPointer
         | Some r \<Rightarrow>
             tryCompleteRequest
               (s1\<lparr>requests := (requests s1)(request info \<mapsto> r\<lparr>metadata' := metadata\<rparr>),
                   frameInfo' := info_update f (\<lambda>i. i\<lparr>metadataProcessed := True\<rparr>) (frameInfo' s1)\<rparr>)
               (request info)))"

text \<open>\<^verbatim>\<open>action.controls[0]\<close> on an empty vector is out of range.\<close>

definition queueFrameAction :: "Pipeline \<Rightarrow> u32 \<Rightarrow> IPAOperationData \<Rightarrow> error + Pipeline" where
  "queueFrameAction s f action =
     (case operation action of
        RKISP1_IPA_ACTION_V4L2_SET \<Rightarrow>
          (case controls action of
             [] \<Rightarrow> Inl OutOfRange
           | c # _ \<Rightarrow> Inr (s\<lparr>timeline' := timeline' s @ [RkISP1ActionSetSensor f c]\<rparr>))
      | RKISP1_IPA_ACTION_PARAM_FILLED \<Rightarrow>
          (case find_frame s f of
             (None, s1) \<Rightarrow> Inr s1
           | (Some info, s1) \<Rightarrow>
               Inr (s1\<lparr>frameInfo' := info_update f (\<lambda>i. i\<lparr>paramFilled := True\<rparr>) (frameInfo' s1)\<rparr>))
      | RKISP1_IPA_ACTION_METADATA \<Rightarrow>
          (case controls action of
             [] \<Rightarrow> Inl OutOfRange
           | c # _ \<Rightarrow> metadataReady s f c)
      | _ \<Rightarrow> Inr (LOG ''Unkown action'' s))"

section \<open>Pipeline operations\<close>

text \<open>\<^verbatim>\<open>new Buffer(i)\<close> and \<^verbatim>\<open>delete\<close> on the buffer store.\<close>

definition new_Buffer :: "Pipeline \<Rightarrow> u32 \<Rightarrow> BufferPtr \<times> Pipeline" where
  "new_Buffer s i =
     (brk s,
      s\<lparr>buffers := (buffers s)(brk s \<mapsto> \<lparr>index' = i, sequence' = 0, timestamp' = 0, request' = None\<rparr>),
        brk := Suc (brk s)\<rparr>)"

definition allocParam :: "u32 \<Rightarrow> Pipeline \<Rightarrow> Pipeline" where
  "allocParam i s =
     (let s1 = s\<lparr>ipaBuffers' := ipaBuffers' s @ [\<lparr>ipabuf_id = RKISP1_PARAM_BASE OR i, memory = (ParamPool, i)\<rparr>]\<rparr>;
          (p, s2) = new_Buffer s1 i
      in s2\<lparr>paramBuffers' := paramBuffers' s2 @ [p]\<rparr>)"

definition allocStat :: "u32 \<Rightarrow> Pipeline \<Rightarrow> Pipeline" where
  "allocStat i s =
     (let s1 = s\<lparr>ipaBuffers' := ipaBuffers' s @ [\<lparr>ipabuf_id = RKISP1_STAT_BASE OR i, memory = (StatPool, i)\<rparr>]\<rparr>;
          (p, s2) = new_Buffer s1 i
      in s2\<lparr>statBuffers' := statBuffers' s2 @ [p]\<rparr>)"

text \<open>The index values of \<^verbatim>\<open>for (unsigned int i = 0; i < n; i++)\<close>.\<close>

definition indices :: "u32 \<Rightarrow> u32 list" where
  "indices n = map of_nat [0 ..< unat n]"

text \<open>
  \<^verbatim>\<open>PipelineHandlerRkISP1::allocateBuffers\<close>. \<open>mt\<close> and \<open>bufferCount\<close> are the
  stream's memory type and configured buffer count; \<open>rv\<close>, \<open>rp\<close>, \<open>rs\<close> are what the
  export (or import) on the video, parameters and statistics device returns.
\<close>

definition allocateBuffers ::
  "Pipeline \<Rightarrow> MemoryType \<Rightarrow> u32 \<Rightarrow> int \<Rightarrow> int \<Rightarrow> int \<Rightarrow> int \<times> Pipeline" where
  "allocateBuffers s mt bufferCount rv rp rs =
     (let s1 = (if mt = InternalMemory then call (ExportBuffers video_dev StreamPool) s
                else call (ImportBuffers video_dev StreamPool) s)
      in if rv \<noteq> 0 then (rv, s1)
         else
           (let s2 = call (ExportBuffers param_dev ParamPool)
                       (call (CreateBuffers ParamPool (bufferCount + 1)) s1)
            in if rp \<noteq> 0 then (rp, call (ReleaseBuffers video_dev) s2)
               else
                 (let s3 = call (ExportBuffers stat_dev StatPool)
                             (call (CreateBuffers StatPool (bufferCount + 1)) s2)
                  in if rs \<noteq> 0
                     then (rs, call (ReleaseBuffers video_dev) (call (ReleaseBuffers param_dev) s3))
                     else
                       (let s4 = fold allocParam (indices (bufferCount + 1)) s3;
                            s5 = fold allocStat (indices (bufferCount + 1)) s4;
                            s6 = call (IpaMapBuffers (ipaBuffers' s5)) s5
                        in (rs, s6)))))"

text \<open>\<^verbatim>\<open>while (!q.empty()) { delete q.front(); q.pop(); }\<close>\<close>

fun drain :: "BufferPtr list \<Rightarrow> (BufferPtr \<rightharpoonup> Buffer) \<Rightarrow> BufferPtr list \<times> (BufferPtr \<rightharpoonup> Buffer)" where
  "drain [] h = ([], h)"
| "drain (p # q) h = drain q (h(p := None))"

text \<open>
  \<^verbatim>\<open>PipelineHandlerRkISP1::freeBuffers\<close>; \<open>rp\<close>, \<open>rs\<close>, \<open>rv\<close> are the results of the
  three \<^verbatim>\<open>releaseBuffers\<close> calls.
\<close>

definition freeBuffers :: "Pipeline \<Rightarrow> int \<Rightarrow> int \<Rightarrow> int \<Rightarrow> int \<times> Pipeline" where
  "freeBuffers s rp rs rv =
     (let (sq, h1) = drain (statBuffers' s) (buffers s);
          s1 = s\<lparr>statBuffers' := sq, buffers := h1\<rparr>;
          (pq, h2) = drain (paramBuffers' s1) (buffers s1);
          s2 = s1\<lparr>paramBuffers' := pq, buffers := h2\<rparr>;
          ids = map ipabuf_id (ipaBuffers' s2);
          s3 = call (IpaUnmapBuffers ids) s2;
          s4 = s3\<lparr>ipaBuffers' := []\<rparr>;
          s5 = call (ReleaseBuffers param_dev) s4;
          s6 = (if rp \<noteq> 0 then LOG ''Failed to release parameters buffers'' s5 else s5);
          s7 = call (ReleaseBuffers stat_dev) s6;
          s8 = (if rs \<noteq> 0 then LOG ''Failed to release stat buffers'' s7 else s7);
          s9 = call (ReleaseBuffers video_dev) s8;
          s10 = (if rv \<noteq> 0 then LOG ''Failed to release video buffers'' s9 else s9)
      in (0, s10))"

text \<open>
  \<^verbatim>\<open>PipelineHandlerRkISP1::start\<close>; \<open>rp\<close>, \<open>rs\<close>, \<open>rv\<close> are the results of
  \<^verbatim>\<open>streamOn\<close> on the parameters, statistics and video device. The IPA's
  \<^verbatim>\<open>configure\<close> returns nothing.
\<close>

definition start :: "Pipeline \<Rightarrow> CameraPtr \<Rightarrow> int \<Rightarrow> int \<Rightarrow> int \<Rightarrow> int \<times> Pipeline" where
  "start s camera rp rs rv =
     (let s1 = call (StreamOn param_dev) (s\<lparr>frame' := 0\<rparr>)
      in if rp \<noteq> 0 then (rp, LOG ''Failed to start parameters'' s1)
         else
           (let s2 = call (StreamOn stat_dev) s1
            in if rs \<noteq> 0
               then (rs, LOG ''Failed to start statistics'' (call (StreamOff param_dev) s2))
               else
                 (let s3 = call (StreamOn video_dev) s2;
                      s4 = (if rv \<noteq> 0
                            then LOG ''Failed to start camera''
                                   (call (StreamOff stat_dev) (call (StreamOff param_dev) s3))
                            else s3);
                      s5 = s4\<lparr>activeCamera' := Some camera\<rparr>;
                      s6 = call IpaConfigure s5
                  in (rv, s6))))"

text \<open>
  \<^verbatim>\<open>PipelineHandlerRkISP1::stop\<close>; \<open>rv\<close>, \<open>rs\<close>, \<open>rp\<close> are the results of the three
  \<^verbatim>\<open>streamOff\<close> calls.
\<close>

definition stop :: "Pipeline \<Rightarrow> CameraPtr \<Rightarrow> int \<Rightarrow> int \<Rightarrow> int \<Rightarrow> Pipeline" where
  "stop s camera rv rs rp =
     (let s1 = call (StreamOff video_dev) s;
          s2 = (if rv \<noteq> 0 then LOG ''Failed to stop camera'' s1 else s1);
          s3 = call (StreamOff stat_dev) s2;
          s4 = (if rs \<noteq> 0 then LOG ''Failed to stop statistics'' s3 else s3);
          s5 = call (StreamOff param_dev) s4;
          s6 = (if rp \<noteq> 0 then LOG ''Failed to stop parameters'' s5 else s5)
      in s6\<lparr>timeline' := [], activeCamera' := None\<rparr>)"

text \<open>
  \<^verbatim>\<open>PipelineHandlerRkISP1::queueRequest\<close>: the status returned, and a fault when a
  pointer read on the way is invalid.
\<close>

definition queueRequest :: "Pipeline \<Rightarrow> CameraPtr \<Rightarrow> RequestPtr \<Rightarrow> error + (int \<times> Pipeline)" where
  "queueRequest s camera req =
     (let s0 = call (BaseQueueRequest camera req) s
      in case create s0 (frame' s0) req (stream' s0) of
           Inl e \<Rightarrow> Inl e
         | Inr (None, s1) \<Rightarrow> Inr (- ENOENT, s1)
         | Inr (Some info, s1) \<Rightarrow>
           (case buffers s1 (paramBuffer info) of
              None \<Rightarrow> Inl InvalidPointer
            | Some pbuf \<Rightarrow>
              (case requests s1 req of
                 None \<Rightarrow> Inl InvalidPointer
               | Some r \<Rightarrow>
                 (let s2 = call (IpaProcessEvent
                                   \<lparr>operation = RKISP1_IPA_EVENT_QUEUE_REQUEST,
                                    data = [frame' s1, RKISP1_PARAM_BASE OR index' pbuf],
                                    controls = [controls' r]\<rparr>) s1;
                      s3 = s2\<lparr>timeline' := timeline' s2 @ [RkISP1ActionQueueBuffers (frame' s2)]\<rparr>;
                      s4 = s3\<lparr>frame' := frame' s3 + 1\<rparr>
                  in Inr (0, s4)))))"

section \<open>The handler driven by its callers\<close>

text \<open>
  The entry points as events: the camera API (allocate, free, start, stop, queue), the
  three \<^verbatim>\<open>bufferReady\<close> signals of the video devices, the IPA's
  \<^verbatim>\<open>queueFrameAction\<close> signal, the timeline running the \<open>n\<close>-th action it holds,
  and the application or the kernel writing the Buffer and Request objects between two
  calls.
\<close>

datatype Event =
    EvAllocateBuffers MemoryType u32 int int int
  | EvFreeBuffers int int int
  | EvStart CameraPtr int int int
  | EvStop CameraPtr int int int
  | EvQueueRequest CameraPtr RequestPtr
  | EvBufferReady BufferPtr
  | EvParamReady BufferPtr
  | EvStatReady BufferPtr
  | EvQueueFrameAction u32 IPAOperationData
  | EvRunAction nat
  | EvObjects "BufferPtr \<rightharpoonup> Buffer" "RequestPtr \<rightharpoonup> Request"

text \<open>
  Modelled from the spec: the Timeline (timeline.h is not under src/) holds the actions
  scheduled and runs each one once; \<open>runAction s n\<close> is the timeline running the
  \<open>n\<close>-th action it holds, and nothing happens when it holds no such action.
\<close>

definition runAction :: "Pipeline \<Rightarrow> nat \<Rightarrow> error + Pipeline" where
  "runAction s n =
     (if n < length (timeline' s)
      then (let s1 = s\<lparr>timeline' := take n (timeline' s) @ drop (Suc n) (timeline' s)\<rparr>
            in case timeline' s ! n of
                 RkISP1ActionSetSensor f ctrls \<Rightarrow> runSetSensor s1 ctrls
               | RkISP1ActionQueueBuffers f \<Rightarrow> runQueueBuffers s1 f)
      else Inr s)"

fun step :: "Pipeline \<Rightarrow> Event \<Rightarrow> error + Pipeline" where
  "step s (EvAllocateBuffers mt n rv rp rs) = Inr (snd (allocateBuffers s mt n rv rp rs))"
| "step s (EvFreeBuffers rp rs rv) = Inr (snd (freeBuffers s rp rs rv))"
| "step s (EvStart cam rp rs rv) = Inr (snd (start s cam rp rs rv))"
| "step s (EvStop cam rv rs rp) = Inr (stop s cam rv rs rp)"
| "step s (EvQueueRequest cam req) =
     (case queueRequest s cam req of Inl e \<Rightarrow> Inl e | Inr (ret, s1) \<Rightarrow> Inr s1)"
| "step s (EvBufferReady b) = bufferReady s b"
| "step s (EvParamReady b) = paramReady s b"
| "step s (EvStatReady b) = statReady s b"
| "step s (EvQueueFrameAction f action) = queueFrameAction s f action"
| "step s (EvRunAction n) = runAction s n"
| "step s (EvObjects bs rs) = Inr (s\<lparr>buffers := bs, requests := rs\<rparr>)"

fun run :: "Pipeline \<Rightarrow> Event list \<Rightarrow> error + Pipeline" where
  "run s [] = Inr s"
| "run s (e # es) = (case step s e of Inl err \<Rightarrow> Inl err | Inr s1 \<Rightarrow> run s1 es)"

section \<open>Well-formed frame tables and sample states\<close>

text \<open>
  What \<^verbatim>\<open>std::map\<close> and \<^verbatim>\<open>create\<close> guarantee of the entries: keys strictly
  ascending, and every FrameInfo stored under its own frame number.
\<close>

definition frames_wf :: "(u32 \<times> RkISP1FrameInfo) list \<Rightarrow> bool" where
  "frames_wf m = (sorted_wrt (<) (map fst m) \<and> list_all (\<lambda>e. frame (snd e) = fst e) m)"

text \<open>The handler as constructed: nothing allocated, nothing queued, no camera active.\<close>

definition idle :: Pipeline where
  "idle = \<lparr>frame' = 0, frameInfo' = [], ipaBuffers' = [], timeline' = [], stream' = 1,
           paramBuffers' = [], statBuffers' = [], activeCamera' = None,
           buffers = Map.empty, brk = 0, requests = Map.empty, calls = [], logs = []\<rparr>"

text \<open>
  A streaming handler (camera 1) with one live frame 0 serving Request 7, whose image
  buffer 30 has been completed; the flags of its FrameInfo are the parameters.
\<close>

definition sample_info :: "bool \<Rightarrow> bool \<Rightarrow> bool \<Rightarrow> RkISP1FrameInfo" where
  "sample_info pf pd mp =
     \<lparr>frame = 0, request = 7, paramBuffer = 10, statBuffer = 20, videoBuffer = 30,
      paramFilled = pf, paramDequeued = pd, metadataProcessed = mp\<rparr>"

definition sample_request :: Request where
  "sample_request = \<lparr>bufferMap' = [1 \<mapsto> 30], pending' = [], controls' = [], metadata' = []\<rparr>"

definition sample :: "bool \<Rightarrow> bool \<Rightarrow> bool \<Rightarrow> Pipeline" where
  "sample pf pd mp =
     idle\<lparr>frame' := 1, frameInfo' := [(0, sample_info pf pd mp)], activeCamera' := Some 1,
          requests := [7 \<mapsto> sample_request]\<rparr>"

text \<open>The image buffer 30 of Request 7 as the capture device returns it with sequence \<open>sq\<close>.\<close>

definition sample_buffer :: "u32 \<Rightarrow> Buffer" where
  "sample_buffer sq = \<lparr>index' = 0, sequence' = sq, timestamp' = 0, request' = Some 7\<rparr>"

definition sample_with_image :: "u32 \<Rightarrow> Pipeline" where
  "sample_with_image sq = (sample False False False)\<lparr>buffers := [30 \<mapsto> sample_buffer sq]\<rparr>"

section \<open>Ledgers over a run\<close>

text \<open>
  The pool equality of a role: buffers in the free queue plus live FrameInfos (each
  holds one parameter and one statistics buffer) against a pool size \<open>n\<close>.
\<close>

definition pool_balance :: "nat \<Rightarrow> Pipeline \<Rightarrow> bool" where
  "pool_balance n s =
     (length (paramBuffers' s) + length (frameInfo' s) = n
      \<and> length (statBuffers' s) + length (frameInfo' s) = n)"

text \<open>
  How often \<open>completeRequest\<close> was called for a Request, how many live FrameInfos
  serve it, and how often a run admits it through \<open>queueRequest\<close>.
\<close>

fun is_completion :: "RequestPtr \<Rightarrow> Call \<Rightarrow> bool" where
  "is_completion r (CompleteRequest cam r') = (r = r')"
| "is_completion r _ = False"

definition completions :: "RequestPtr \<Rightarrow> Pipeline \<Rightarrow> nat" where
  "completions r s = length (filter (is_completion r) (calls s))"

definition live_for :: "RequestPtr \<Rightarrow> Pipeline \<Rightarrow> nat" where
  "live_for r s = length (filter (\<lambda>e. request (snd e) = r) (frameInfo' s))"

fun is_admission :: "RequestPtr \<Rightarrow> Event \<Rightarrow> bool" where
  "is_admission r (EvQueueRequest cam r') = (r = r')"
| "is_admission r _ = False"

definition admissions :: "RequestPtr \<Rightarrow> Event list \<Rightarrow> nat" where
  "admissions r es = length (filter (is_admission r) es)"

text \<open>
  Events other than allocation and release of the pools; and whether an event creates
  its FrameInfo under a frame number that no live FrameInfo has.
\<close>

fun streaming_event :: "Event \<Rightarrow> bool" where
  "streaming_event (EvAllocateBuffers mt n rv rp rs) = False"
| "streaming_event (EvFreeBuffers rp rs rv) = False"
| "streaming_event _ = True"

fun admits_fresh :: "Pipeline \<Rightarrow> Event \<Rightarrow> bool" where
  "admits_fresh s (EvQueueRequest cam req) = (map_find (frame' s) (frameInfo' s) = None)"
| "admits_fresh s _ = True"

text \<open>
  A transition that keeps the frame table well formed, both pool sums, and the sum of
  completions and live FrameInfos of Request \<open>r\<close>.
\<close>

definition ledger_kept :: "RequestPtr \<Rightarrow> Pipeline \<Rightarrow> Pipeline \<Rightarrow> bool" where
  "ledger_kept r s s' =
     (frames_wf (frameInfo' s')
      \<and> length (paramBuffers' s') + length (frameInfo' s') = length (paramBuffers' s) + length (frameInfo' s)
      \<and> length (statBuffers' s') + length (frameInfo' s') = length (statBuffers' s) + length (frameInfo' s)
      \<and> completions r s' + live_for r s' = completions r s + live_for r s)"

text \<open>A run that ends without a fault in a state satisfying \<open>P\<close>.\<close>

definition ends_in :: "Pipeline \<Rightarrow> Event list \<Rightarrow> (Pipeline \<Rightarrow> bool) \<Rightarrow> bool" where
  "ends_in s es P = (case run s es of Inl e \<Rightarrow> False | Inr s' \<Rightarrow> P s')"

text \<open>
  Sample runs from \<open>idle\<close>. The application owns image buffers 30 and 31 and
  Requests 7 and 8, one buffer each on stream 1; the stream is configured with
  \<open>bufferCount = 1\<close>, so each pool has two buffers (parameters at addresses 0 and 1,
  statistics at 2 and 3). \<open>admitted\<close> queues Request 7 as frame 0.
\<close>

definition app_objects :: Event where
  "app_objects = EvObjects
     [30 \<mapsto> \<lparr>index' = 0, sequence' = 0, timestamp' = 0, request' = Some 7\<rparr>,
      31 \<mapsto> \<lparr>index' = 1, sequence' = 1, timestamp' = 0, request' = Some 8\<rparr>]
     [7 \<mapsto> \<lparr>bufferMap' = [1 \<mapsto> 30], pending' = [30], controls' = [], metadata' = []\<rparr>,
      8 \<mapsto> \<lparr>bufferMap' = [1 \<mapsto> 31], pending' = [31], controls' = [], metadata' = []\<rparr>]"

definition PARAM_FILLED :: IPAOperationData where
  "PARAM_FILLED = \<lparr>operation = RKISP1_IPA_ACTION_PARAM_FILLED, data = [], controls = []\<rparr>"

definition METADATA :: IPAOperationData where
  "METADATA = \<lparr>operation = RKISP1_IPA_ACTION_METADATA, data = [], controls = [[]]\<rparr>"

definition admitted :: "Event list" where
  "admitted = [app_objects, EvAllocateBuffers InternalMemory 1 0 0 0, EvStart 1 0 0 0,
               EvQueueRequest 1 7]"

definition restart_scenario :: "Event list" where
  "restart_scenario = admitted @ [EvStop 1 0 0 0, EvStart 1 0 0 0, EvQueueRequest 1 8]"

definition happy_path :: "Event list" where
  "happy_path = admitted @
     [EvQueueFrameAction 0 PARAM_FILLED, EvRunAction 0, EvBufferReady 30, EvParamReady 0,
      EvStatReady 2, EvQueueFrameAction 0 METADATA, EvQueueFrameAction 0 METADATA]"

section \<open>The environment of a streaming session\<close>















section \<open>Properties of the frame table\<close>

lemma frames_wf_Nil: "frames_wf []"
  by (simp add: frames_wf_def)

lemma frames_wf_Cons:
  "frames_wf ((k, v) # m) = (frame v = k \<and> (\<forall>e \<in> set m. k < fst e) \<and> frames_wf m)"
  by (auto simp: frames_wf_def)

lemma map_find_None_iff: "map_find k m = None \<longleftrightarrow> k \<notin> fst ` set m"
  by (induction m) (auto split: if_splits)

lemma map_find_Some_mem: "map_find k m = Some v \<Longrightarrow> (k, v) \<in> set m"
  by (induction m) (auto split: if_splits)

lemma wf_mem_map_find: "frames_wf m \<Longrightarrow> (k, v) \<in> set m \<Longrightarrow> map_find k m = Some v"
proof (induction m)
  case Nil
  then show ?case by simp
next
  case (Cons e m)
  obtain k' v' where e: "e = (k', v')" by (cases e)
  show ?case
  proof (cases "(k, v) = (k', v')")
    case True
    then show ?thesis by (simp add: e)
  next
    case False
    with Cons.prems e have mem: "(k, v) \<in> set m" by auto
    from Cons.prems e have lt: "\<forall>x \<in> set m. k' < fst x" and wf: "frames_wf m"
      by (simp_all add: frames_wf_Cons)
    from lt mem have "k' < k" by force
    then have "k \<noteq> k'" by simp
    with Cons.IH[OF wf mem] show ?thesis by (simp add: e)
  qed
qed

lemma scan_request_Some: "scan_request r m = Some (k, i) \<Longrightarrow> (k, i) \<in> set m \<and> request i = r"
  by (induction m) (auto split: if_splits)


lemma mem_map_erase: "x \<in> set (map_erase k m) \<Longrightarrow> x \<in> set m"
  by (induction m) (auto split: if_splits)

lemma wf_map_erase: "frames_wf m \<Longrightarrow> frames_wf (map_erase k m)"
proof (induction m)
  case Nil
  then show ?case by simp
next
  case (Cons e m)
  obtain k' v' where e: "e = (k', v')" by (cases e)
  from Cons.prems e have hd: "frame v' = k'" and lt: "\<forall>x \<in> set m. k' < fst x" and wf: "frames_wf m"
    by (simp_all add: frames_wf_Cons)
  from lt have "\<forall>x \<in> set (map_erase k m). k' < fst x"
    using mem_map_erase by blast
  with hd Cons.IH[OF wf] wf show ?case
    by (simp add: e frames_wf_Cons)
qed

lemma wf_map_find_erase: "frames_wf m \<Longrightarrow> map_find k (map_erase k m) = None"
proof (induction m)
  case Nil
  then show ?case by simp
next
  case (Cons e m)
  obtain k' v' where e: "e = (k', v')" by (cases e)
  from Cons.prems e have lt: "\<forall>x \<in> set m. k' < fst x" and wf: "frames_wf m"
    by (simp_all add: frames_wf_Cons)
  show ?case
  proof (cases "k = k'")
    case True
    have "k' \<notin> fst ` set m" using lt by force
    with True show ?thesis by (simp add: e map_find_None_iff)
  next
    case False
    with Cons.IH[OF wf] show ?thesis by (simp add: e)
  qed
qed

lemma wf_frame_key: "frames_wf m \<Longrightarrow> (k, v) \<in> set m \<Longrightarrow> frame v = k"
  by (induction m) (auto simp: frames_wf_Cons)

lemma mem_map_assign: "x \<in> set (map_assign k v m) \<Longrightarrow> x = (k, v) \<or> x \<in> set m"
  by (induction m) (auto split: if_splits)

lemma wf_map_assign: "frames_wf m \<Longrightarrow> frame v = k \<Longrightarrow> frames_wf (map_assign k v m)"
proof (induction m)
  case Nil
  then show ?case by (simp add: frames_wf_def)
next
  case (Cons e m)
  obtain k' v' where e: "e = (k', v')" by (cases e)
  from Cons.prems e have hd: "frame v' = k'" and lt: "\<forall>x \<in> set m. k' < fst x" and wf: "frames_wf m"
    by (simp_all add: frames_wf_Cons)
  consider "k < k'" | "k = k'" | "k' < k" by (metis linorder_less_linear)
  then show ?case
  proof cases
    case 1
    then have "\<forall>x \<in> set m. k < fst x" using lt by auto
    with 1 Cons.prems hd lt wf show ?thesis by (simp add: e frames_wf_Cons)
  next
    case 2
    with Cons.prems hd lt wf show ?thesis by (simp add: e frames_wf_Cons)
  next
    case 3
    have "\<forall>x \<in> set (map_assign k v m). k' < fst x"
    proof
      fix x assume "x \<in> set (map_assign k v m)"
      then have "x = (k, v) \<or> x \<in> set m" by (rule mem_map_assign)
      with 3 lt show "k' < fst x" by auto
    qed
    moreover have "frames_wf (map_assign k v m)" using Cons.IH[OF wf Cons.prems(2)] .
    moreover have "\<not> k < k'" "k \<noteq> k'" using 3 by auto
    ultimately show ?thesis using hd by (simp add: e frames_wf_Cons)
  qed
qed

lemma map_fst_info_update: "map fst (info_update k f m) = map fst m"
  by (induction m) auto

lemma fst_set_info_update: "fst ` set (info_update k f m) = fst ` set m"
  using map_fst_info_update[of k f m] by (metis set_map)

lemma wf_info_update:
  "frames_wf m \<Longrightarrow> (\<And>i. frame (f i) = frame i) \<Longrightarrow> frames_wf (info_update k f m)"
proof (induction m)
  case Nil
  then show ?case by simp
next
  case (Cons e m)
  obtain k' v' where e: "e = (k', v')" by (cases e)
  from Cons.prems(1) e have hd: "frame v' = k'" and lt: "\<forall>x \<in> set m. k' < fst x" and wf: "frames_wf m"
    by (simp_all add: frames_wf_Cons)
  have "\<forall>x \<in> set (info_update k f m). k' < fst x"
  proof
    fix x assume "x \<in> set (info_update k f m)"
    then have "fst x \<in> fst ` set m" using fst_set_info_update[of k f m] by (metis imageI)
    with lt show "k' < fst x" by auto
  qed
  with hd lt wf Cons.IH[OF wf Cons.prems(2)] Cons.prems(2) show ?case
    by (simp add: e frames_wf_Cons)
qed

section \<open>The completion gate\<close>

text \<open>
  C1. For a Request with a live FrameInfo (while a camera is active and the Request
  object is valid), \<open>tryCompleteRequest\<close> completes the Request if and only if the
  Request reports no pending buffers and \<open>metadataProcessed\<close> and \<open>paramDequeued\<close>
  are set: then it calls the external \<open>completeRequest\<close> and destroys the frame's
  entry, handing its parameter and statistics buffers back to the free queues; in
  every other state it changes nothing.
\<close>

theorem tryCompleteRequest_gate:
  assumes active: "activeCamera' s = Some cam"
    and wf: "frames_wf (frameInfo' s)"
    and live: "scan_request req (frameInfo' s) = Some (k, info)"
    and obj: "requests s req = Some r"
  shows "\<exists>s'. tryCompleteRequest s req = Inr s' \<and>
           (if \<not> hasPendingBuffers r \<and> metadataProcessed info \<and> paramDequeued info
            then calls s' = calls s @ [CompleteRequest cam req]
               \<and> frameInfo' s' = map_erase k (frameInfo' s)
               \<and> map_find k (frameInfo' s') = None
               \<and> paramBuffers' s' = paramBuffers' s @ [paramBuffer info]
               \<and> statBuffers' s' = statBuffers' s @ [statBuffer info]
            else s' = s)"
proof -
  from live have mem: "(k, info) \<in> set (frameInfo' s)" by (simp add: scan_request_Some)
  have fr: "frame info = k" using wf mem by (rule wf_frame_key)
  have mf: "map_find k (frameInfo' s) = Some info" using wf mem by (rule wf_mem_map_find)
  show ?thesis
    using active live obj fr mf wf_map_find_erase[OF wf, of k]
    by (simp add: tryCompleteRequest_def find_request_def destroy_def find_frame_def call_def)
qed


theorem tryCompleteRequest_gate_witness:
  "activeCamera' (sample False True True) = Some 1
   \<and> frames_wf (frameInfo' (sample False True True))
   \<and> scan_request 7 (frameInfo' (sample False True True)) = Some (0, sample_info False True True)
   \<and> requests (sample False True True) 7 = Some sample_request
   \<and> (\<exists>s'. tryCompleteRequest (sample False True True) 7 = Inr s'
          \<and> calls s' = [CompleteRequest 1 7] \<and> frameInfo' s' = []
          \<and> paramBuffers' s' = [10] \<and> statBuffers' s' = [20])"
proof -
  have h1: "activeCamera' (sample False True True) = Some 1"
    by (simp add: sample_def)
  have h2: "frames_wf (frameInfo' (sample False True True))"
    by (simp add: sample_def sample_info_def frames_wf_def)
  have h3: "scan_request 7 (frameInfo' (sample False True True)) = Some (0, sample_info False True True)"
    by (simp add: sample_def sample_info_def)
  have h4: "requests (sample False True True) 7 = Some sample_request"
    by (simp add: sample_def)
  from tryCompleteRequest_gate [OF h1 h2 h3 h4] obtain s' where
    r: "tryCompleteRequest (sample False True True) 7 = Inr s'" and
    c: "calls s' = calls (sample False True True) @ [CompleteRequest 1 7]
        \<and> frameInfo' s' = map_erase 0 (frameInfo' (sample False True True))
        \<and> paramBuffers' s' = paramBuffers' (sample False True True) @ [paramBuffer (sample_info False True True)]
        \<and> statBuffers' s' = statBuffers' (sample False True True) @ [statBuffer (sample_info False True True)]"
    by (auto simp: sample_info_def sample_request_def hasPendingBuffers_def)
  from c have "calls s' = [CompleteRequest 1 7] \<and> frameInfo' s' = []
      \<and> paramBuffers' s' = [10] \<and> statBuffers' s' = [20]"
    by (simp add: sample_def sample_info_def idle_def)
  with r h1 h2 h3 h4 show ?thesis by blast
qed

section \<open>Fields untouched by a recorded call or a log line\<close>

lemma call_fields [simp]:
  "frame' (call c s) = frame' s" "frameInfo' (call c s) = frameInfo' s"
  "ipaBuffers' (call c s) = ipaBuffers' s" "timeline' (call c s) = timeline' s"
  "stream' (call c s) = stream' s" "paramBuffers' (call c s) = paramBuffers' s"
  "statBuffers' (call c s) = statBuffers' s" "activeCamera' (call c s) = activeCamera' s"
  "buffers (call c s) = buffers s" "brk (call c s) = brk s" "requests (call c s) = requests s"
  "calls (call c s) = calls s @ [c]" "logs (call c s) = logs s"
  by (simp_all add: call_def)

lemma LOG_fields [simp]:
  "frame' (LOG m s) = frame' s" "frameInfo' (LOG m s) = frameInfo' s"
  "ipaBuffers' (LOG m s) = ipaBuffers' s" "timeline' (LOG m s) = timeline' s"
  "stream' (LOG m s) = stream' s" "paramBuffers' (LOG m s) = paramBuffers' s"
  "statBuffers' (LOG m s) = statBuffers' s" "activeCamera' (LOG m s) = activeCamera' s"
  "buffers (LOG m s) = buffers s" "brk (LOG m s) = brk s" "requests (LOG m s) = requests s"
  "calls (LOG m s) = calls s" "logs (LOG m s) = logs s @ [m]"
  by (simp_all add: LOG_def)

section \<open>Facts shared by the callbacks\<close>

lemma frame'_destroy [simp]: "frame' (snd (destroy s f)) = frame' s"
  by (simp add: destroy_def find_frame_def LOG_def split: option.splits)

lemma frame'_tryCompleteRequest: "tryCompleteRequest s req = Inr s' \<Longrightarrow> frame' s' = frame' s"
  by (auto simp: tryCompleteRequest_def find_request_def LOG_def call_def
           split: option.splits if_splits prod.splits)

lemma tryCompleteRequest_returns:
  "activeCamera' s = Some cam \<Longrightarrow> requests s req = Some r \<Longrightarrow> \<exists>s'. tryCompleteRequest s req = Inr s'"
  by (auto simp: tryCompleteRequest_def find_request_def LOG_def split: option.splits)

lemma completeBuffer_returns:
  "requests s req = Some r \<Longrightarrow>
   \<exists>s'. completeBuffer s cam req b = Inr s' \<and> frame' s' = frame' s
        \<and> activeCamera' s' = activeCamera' s \<and> (\<exists>r'. requests s' req = Some r')"
  by (simp add: completeBuffer_def call_def)

section \<open>The QueueBuffers action\<close>

text \<open>
  C8. When the QueueBuffers action runs for a frame whose FrameInfo is present, it
  queues the parameter buffer to the parameters device only if \<open>paramFilled\<close> is set
  (otherwise it logs and goes on), then the statistics buffer, then the image buffer:
  the device calls it makes are exactly these, in the order params, stats, image.
\<close>

theorem runQueueBuffers_order:
  assumes "map_find f (frameInfo' s) = Some info"
  shows "runQueueBuffers s f =
           Inr (s\<lparr>calls := calls s
                     @ (if paramFilled info then [QueueBuffer param_dev (paramBuffer info)] else [])
                     @ [QueueBuffer stat_dev (statBuffer info), QueueBuffer video_dev (videoBuffer info)],
                   logs := logs s
                     @ (if paramFilled info then []
                        else [''Parameters not ready on time for frame, ignore parameters.''])\<rparr>)"
  using assms by (simp add: runQueueBuffers_def find_frame_def call_def LOG_def)

theorem runQueueBuffers_order_witness:
  "map_find 0 (frameInfo' (sample True False False)) = Some (sample_info True False False)
   \<and> calls (projr (runQueueBuffers (sample True False False) 0)) =
        [QueueBuffer param_dev 10, QueueBuffer stat_dev 20, QueueBuffer video_dev 30]
   \<and> calls (projr (runQueueBuffers (sample False False False) 0)) =
        [QueueBuffer stat_dev 20, QueueBuffer video_dev 30]"
proof -
  have h1: "map_find 0 (frameInfo' (sample True False False)) = Some (sample_info True False False)"
    by (simp add: sample_def)
  have h2: "map_find 0 (frameInfo' (sample False False False)) = Some (sample_info False False False)"
    by (simp add: sample_def)
  show ?thesis
    using h1 runQueueBuffers_order [OF h1] runQueueBuffers_order [OF h2]
    by (simp add: sample_def sample_info_def idle_def)
qed

section \<open>The frame counter on image completion\<close>

text \<open>
  C9 (amended). For an image-buffer completion whose sequence number is below
  \<open>2^32 - 1\<close> (with a camera active and the buffer's Request valid), \<open>bufferReady\<close>
  returns and leaves the frame counter at the maximum of its old value and the
  sequence number plus one; the counter does not decrease.
\<close>

theorem bufferReady_frame_counter:
  assumes active: "activeCamera' s = Some cam"
    and buf: "buffers s b = Some buf"
    and req: "request' buf = Some req"
    and obj: "requests s req = Some r"
    and nowrap: "unat (sequence' buf) < 2 ^ 32 - 1"
  shows "\<exists>s'. bufferReady s b = Inr s'
           \<and> unat (frame' s') = max (unat (frame' s)) (unat (sequence' buf) + 1)
           \<and> frame' s \<le> frame' s'"
proof -
  define s2 where "s2 = (let s1 = call (NotifyStartOfExposure (sequence' buf) (timestamp' buf)) s
     in if frame' s1 \<le> sequence' buf then s1\<lparr>frame' := sequence' buf + 1\<rparr> else s1)"
  have u: "unat (sequence' buf + 1) = unat (sequence' buf) + 1"
    using nowrap by (simp add: unat_word_ariths)
  have f2: "unat (frame' s2) = max (unat (frame' s)) (unat (sequence' buf) + 1)"
    using u by (auto simp: s2_def call_def word_le_nat_alt Let_def)
  have q2: "requests s2 = requests s" and a2: "activeCamera' s2 = activeCamera' s"
    by (simp_all add: s2_def call_def Let_def)
  from completeBuffer_returns[of s2 req r cam b] obj q2
  obtain s3 where s3: "completeBuffer s2 cam req b = Inr s3" and f3: "frame' s3 = frame' s2"
    and a3': "activeCamera' s3 = activeCamera' s2" and r3: "\<exists>r'. requests s3 req = Some r'"
    by auto
  have a3: "activeCamera' s3 = Some cam" using a3' a2 active by simp
  from r3 obtain r' where "requests s3 req = Some r'" ..
  from tryCompleteRequest_returns[OF a3 this] obtain s' where s': "tryCompleteRequest s3 req = Inr s'" ..
  have "bufferReady s b = Inr s'"
    using active buf req s3 s' by (simp add: bufferReady_def s2_def Let_def)
  moreover have "frame' s' = frame' s2" using frame'_tryCompleteRequest[OF s'] f3 by simp
  ultimately show ?thesis using f2 by (auto simp: word_le_nat_alt)
qed

theorem bufferReady_frame_counter_witness:
  "activeCamera' (sample_with_image 7) = Some 1
   \<and> buffers (sample_with_image 7) 30 = Some (sample_buffer 7)
   \<and> request' (sample_buffer 7) = Some 7
   \<and> requests (sample_with_image 7) 7 = Some sample_request
   \<and> unat (sequence' (sample_buffer 7)) < 2 ^ 32 - 1
   \<and> frame' (sample_with_image 7) = 1
   \<and> (\<exists>s'. bufferReady (sample_with_image 7) 30 = Inr s' \<and> unat (frame' s') = 8)"
proof -
  have h1: "activeCamera' (sample_with_image 7) = Some 1"
    by (simp add: sample_with_image_def sample_def)
  have h2: "buffers (sample_with_image 7) 30 = Some (sample_buffer 7)"
    by (simp add: sample_with_image_def)
  have h3: "request' (sample_buffer 7) = Some 7"
    by (simp add: sample_buffer_def)
  have h4: "requests (sample_with_image 7) 7 = Some sample_request"
    by (simp add: sample_with_image_def sample_def)
  have h5: "unat (sequence' (sample_buffer 7)) < 2 ^ 32 - 1"
    by (simp add: sample_buffer_def)
  have h6: "frame' (sample_with_image 7) = 1"
    by (simp add: sample_with_image_def sample_def)
  have h7: "unat (sequence' (sample_buffer 7)) = 7"
    by (simp add: sample_buffer_def)
  from bufferReady_frame_counter [OF h1 h2 h3 h4 h5] obtain s' where
    "bufferReady (sample_with_image 7) 30 = Inr s'"
    "unat (frame' s') = max (unat (frame' (sample_with_image 7))) (unat (sequence' (sample_buffer 7)) + 1)"
    by blast
  then have "\<exists>s'. bufferReady (sample_with_image 7) 30 = Inr s' \<and> unat (frame' s') = 8"
    by (auto simp: h6 h7)
  with h1 h2 h3 h4 h5 h6 show ?thesis by blast
qed

text \<open>
  The claim as stated fails at sequence number \<open>2^32 - 1\<close>: the counter goes from 1
  to 0, which is neither \<open>max\<close> of the two nor an advance.
\<close>

theorem bufferReady_sequence_wraps:
  "frame' (sample_with_image 0xFFFFFFFF) = 1
   \<and> (\<exists>s'. bufferReady (sample_with_image 0xFFFFFFFF) 30 = Inr s' \<and> frame' s' = 0)"
  by (simp add: bufferReady_def completeBuffer_def tryCompleteRequest_def find_request_def
      sample_with_image_def sample_def sample_info_def sample_buffer_def sample_request_def
      idle_def call_def hasPendingBuffers_def Let_def)

section \<open>A completion for a buffer of no live frame\<close>

text \<open>
  C5. When the buffer belongs to no live FrameInfo, the lookup by buffer returns null.
  \<open>statReady\<close> then logs and returns with nothing else changed; \<open>paramReady\<close>
  writes \<open>paramDequeued\<close> through the null pointer.
\<close>

theorem paramReady_unknown_buffer:
  assumes "activeCamera' s = Some cam" and "scan_buffer b (frameInfo' s) = None"
  shows "paramReady s b = Inl NullDeref
         \<and> statReady s b = Inr (s\<lparr>logs := logs s @ [''Can not locate info from buffer'']\<rparr>)"
  using assms by (simp add: paramReady_def statReady_def find_buffer_def LOG_def)

theorem paramReady_unknown_buffer_witness:
  "activeCamera' (sample False False False) = Some 1
   \<and> scan_buffer 99 (frameInfo' (sample False False False)) = None
   \<and> paramReady (sample False False False) 99 = Inl NullDeref"
proof -
  have h1: "activeCamera' (sample False False False) = Some 1"
    by (simp add: sample_def)
  have h2: "scan_buffer 99 (frameInfo' (sample False False False)) = None"
    by (simp add: sample_def sample_info_def)
  from paramReady_unknown_buffer [OF h1 h2] h1 h2 show ?thesis by blast
qed

section \<open>Starting the pipeline\<close>

text \<open>
  C6. \<open>start\<close> streams on the parameters, statistics and video device in that order.
  When the parameters or the statistics stream-on fails it streams off what was already
  on and returns the error at once: no active camera is recorded and the IPA is not
  configured. When the video stream-on fails it streams off parameters and statistics
  and logs, but that branch has no \<^verbatim>\<open>return ret;\<close> (its two siblings have one):
  \<open>start\<close> goes on, records the active camera, configures the IPA, and only then
  returns the error. When all three succeed it records the active camera, configures
  the IPA and returns success. The IPA's \<^verbatim>\<open>configure\<close> returns nothing, so
  \<open>start\<close> has no path on which that step fails.
\<close>

theorem start_video_failure_falls_through:
  "(rp \<noteq> 0 \<longrightarrow>
      start s cam rp rs rv =
        (rp, s\<lparr>frame' := 0, calls := calls s @ [StreamOn param_dev],
               logs := logs s @ [''Failed to start parameters'']\<rparr>))
   \<and> (rp = 0 \<and> rs \<noteq> 0 \<longrightarrow>
      start s cam rp rs rv =
        (rs, s\<lparr>frame' := 0,
               calls := calls s @ [StreamOn param_dev, StreamOn stat_dev, StreamOff param_dev],
               logs := logs s @ [''Failed to start statistics'']\<rparr>))
   \<and> (rp = 0 \<and> rs = 0 \<and> rv \<noteq> 0 \<longrightarrow>
      start s cam rp rs rv =
        (rv, s\<lparr>frame' := 0, activeCamera' := Some cam,
               calls := calls s @ [StreamOn param_dev, StreamOn stat_dev, StreamOn video_dev,
                                   StreamOff param_dev, StreamOff stat_dev, IpaConfigure],
               logs := logs s @ [''Failed to start camera'']\<rparr>))
   \<and> (rp = 0 \<and> rs = 0 \<and> rv = 0 \<longrightarrow>
      start s cam rp rs rv =
        (0, s\<lparr>frame' := 0, activeCamera' := Some cam,
              calls := calls s @ [StreamOn param_dev, StreamOn stat_dev, StreamOn video_dev,
                                  IpaConfigure]\<rparr>))"
  by (simp add: start_def call_def LOG_def Let_def)

theorem start_video_failure_falls_through_witness:
  "start idle 1 (- 5) 0 0 =
     (- 5, idle\<lparr>calls := [StreamOn param_dev], logs := [''Failed to start parameters'']\<rparr>)
   \<and> start idle 1 0 (- 5) 0 =
     (- 5, idle\<lparr>calls := [StreamOn param_dev, StreamOn stat_dev, StreamOff param_dev],
               logs := [''Failed to start statistics'']\<rparr>)
   \<and> start idle 1 0 0 (- 5) =
     (- 5, idle\<lparr>activeCamera' := Some 1,
               calls := [StreamOn param_dev, StreamOn stat_dev, StreamOn video_dev,
                         StreamOff param_dev, StreamOff stat_dev, IpaConfigure],
               logs := [''Failed to start camera'']\<rparr>)
   \<and> activeCamera' (snd (start idle 1 0 0 (- 5))) = Some 1
   \<and> activeCamera' (snd (start idle 1 0 (- 5) 0)) = None
   \<and> start idle 1 0 0 0 =
     (0, idle\<lparr>activeCamera' := Some 1,
              calls := [StreamOn param_dev, StreamOn stat_dev, StreamOn video_dev, IpaConfigure]\<rparr>)"
  using start_video_failure_falls_through [of "- 5" idle 1 0 0]
    start_video_failure_falls_through [of 0 idle 1 "- 5" 0]
    start_video_failure_falls_through [of 0 idle 1 0 "- 5"]
    start_video_failure_falls_through [of 0 idle 1 0 0]
  by (simp add: idle_def)

section \<open>A Request that cannot be admitted\<close>

text \<open>
  C7. \<open>queueRequest\<close> returns an error exactly when it cannot create a FrameInfo (a
  free queue is empty, or the Request has no buffer for the stream). It then returns
  \<open>-ENOENT\<close> and the handler is as before but for the record of the base-class call
  made first and one log line: the frame counter, both free queues, the frame table and
  the timeline are unchanged and no IPA event was sent.
\<close>

theorem queueRequest_failure:
  "((\<exists>ret s'. queueRequest s cam req = Inr (ret, s') \<and> ret \<noteq> 0)
      \<longleftrightarrow> (paramBuffers' s = [] \<or> statBuffers' s = []
           \<or> (\<exists>r. requests s req = Some r \<and> findBuffer r (stream' s) = None)))
   \<and> (paramBuffers' s = [] \<or> statBuffers' s = []
        \<or> (\<exists>r. requests s req = Some r \<and> findBuffer r (stream' s) = None)
      \<longrightarrow> (\<exists>msg. queueRequest s cam req =
             Inr (- ENOENT, s\<lparr>calls := calls s @ [BaseQueueRequest cam req],
                                logs := logs s @ [msg]\<rparr>)))"
proof -
  have fails: "\<exists>msg. queueRequest s cam req =
             Inr (- ENOENT, s\<lparr>calls := calls s @ [BaseQueueRequest cam req], logs := logs s @ [msg]\<rparr>)"
    if "paramBuffers' s = [] \<or> statBuffers' s = []
        \<or> (\<exists>r. requests s req = Some r \<and> findBuffer r (stream' s) = None)"
    using that
    by (auto simp: queueRequest_def create_def call_def LOG_def Let_def
             split: list.splits option.splits)
  have only: "paramBuffers' s = [] \<or> statBuffers' s = []
        \<or> (\<exists>r. requests s req = Some r \<and> findBuffer r (stream' s) = None)"
    if "queueRequest s cam req = Inr (ret, s')" "ret \<noteq> 0" for ret s'
    using that
    by (auto simp: queueRequest_def create_def Let_def split: list.splits option.splits)
  have "- ENOENT \<noteq> 0" by (simp add: ENOENT_def)
  with fails only show ?thesis by metis
qed

theorem queueRequest_failure_witness:
  "paramBuffers' idle = []
   \<and> queueRequest idle 1 7 =
       Inr (- ENOENT, idle\<lparr>calls := [BaseQueueRequest 1 7],
                           logs := [''Parameters buffer underrun'']\<rparr>)"
proof -
  have h: "paramBuffers' idle = [] \<or> statBuffers' idle = []
           \<or> (\<exists>r. requests idle 7 = Some r \<and> findBuffer r (stream' idle) = None)"
    by (simp add: idle_def)
  from queueRequest_failure [of idle 1 7] h obtain msg where
    q: "queueRequest idle 1 7 =
          Inr (- ENOENT, idle\<lparr>calls := calls idle @ [BaseQueueRequest 1 7], logs := logs idle @ [msg]\<rparr>)"
    by blast
  have "queueRequest idle 1 7 =
       Inr (- ENOENT, idle\<lparr>calls := [BaseQueueRequest 1 7], logs := [''Parameters buffer underrun'']\<rparr>)"
    by (simp add: queueRequest_def create_def call_def LOG_def Let_def idle_def)
  moreover have "paramBuffers' idle = []" by (simp add: idle_def)
  ultimately show ?thesis using q by simp
qed

section \<open>Allocating and freeing the buffers\<close>

lemma drain_fst [simp]: "fst (drain q h) = []"
  by (induction q arbitrary: h) auto

lemma drain_snd: "snd (drain q h) = (\<lambda>p. if p \<in> set q then None else h p)"
  by (induction q arbitrary: h) (auto simp: fun_eq_iff)

lemma fold_allocParam:
  "paramBuffers' (fold allocParam is s) = paramBuffers' s @ [brk s ..< brk s + length is]
   \<and> ipaBuffers' (fold allocParam is s) =
       ipaBuffers' s @ map (\<lambda>i. \<lparr>ipabuf_id = RKISP1_PARAM_BASE OR i, memory = (ParamPool, i)\<rparr>) is
   \<and> statBuffers' (fold allocParam is s) = statBuffers' s
   \<and> calls (fold allocParam is s) = calls s
   \<and> brk (fold allocParam is s) = brk s + length is
   \<and> (\<forall>p. p < brk s \<longrightarrow> buffers (fold allocParam is s) p = buffers s p)
   \<and> (\<forall>p. brk s + length is \<le> p \<longrightarrow> buffers (fold allocParam is s) p = buffers s p)"
proof (induction "is" arbitrary: s)
  case Nil
  then show ?case by simp
next
  case (Cons i "is")
  have a: "paramBuffers' (allocParam i s) = paramBuffers' s @ [brk s]"
    "ipaBuffers' (allocParam i s) = ipaBuffers' s @ [\<lparr>ipabuf_id = RKISP1_PARAM_BASE OR i, memory = (ParamPool, i)\<rparr>]"
    "statBuffers' (allocParam i s) = statBuffers' s"
    "calls (allocParam i s) = calls s"
    "brk (allocParam i s) = Suc (brk s)"
    "\<And>p. p \<noteq> brk s \<Longrightarrow> buffers (allocParam i s) p = buffers s p"
    by (simp_all add: allocParam_def new_Buffer_def Let_def)
  have u: "[brk s ..< brk s + Suc (length is)] = brk s # [Suc (brk s) ..< Suc (brk s) + length is]"
    by (simp add: upt_rec)
  show ?case
    using Cons.IH[of "allocParam i s"] a u by auto
qed

lemma fold_allocStat:
  "statBuffers' (fold allocStat is s) = statBuffers' s @ [brk s ..< brk s + length is]
   \<and> ipaBuffers' (fold allocStat is s) =
       ipaBuffers' s @ map (\<lambda>i. \<lparr>ipabuf_id = RKISP1_STAT_BASE OR i, memory = (StatPool, i)\<rparr>) is
   \<and> paramBuffers' (fold allocStat is s) = paramBuffers' s
   \<and> calls (fold allocStat is s) = calls s
   \<and> brk (fold allocStat is s) = brk s + length is
   \<and> (\<forall>p. p < brk s \<longrightarrow> buffers (fold allocStat is s) p = buffers s p)
   \<and> (\<forall>p. brk s + length is \<le> p \<longrightarrow> buffers (fold allocStat is s) p = buffers s p)"
proof (induction "is" arbitrary: s)
  case Nil
  then show ?case by simp
next
  case (Cons i "is")
  have a: "statBuffers' (allocStat i s) = statBuffers' s @ [brk s]"
    "ipaBuffers' (allocStat i s) = ipaBuffers' s @ [\<lparr>ipabuf_id = RKISP1_STAT_BASE OR i, memory = (StatPool, i)\<rparr>]"
    "paramBuffers' (allocStat i s) = paramBuffers' s"
    "calls (allocStat i s) = calls s"
    "brk (allocStat i s) = Suc (brk s)"
    "\<And>p. p \<noteq> brk s \<Longrightarrow> buffers (allocStat i s) p = buffers s p"
    by (simp_all add: allocStat_def new_Buffer_def Let_def)
  have u: "[brk s ..< brk s + Suc (length is)] = brk s # [Suc (brk s) ..< Suc (brk s) + length is]"
    by (simp add: upt_rec)
  show ?case
    using Cons.IH[of "allocStat i s"] a u by auto
qed

lemma length_indices [simp]: "length (indices n) = unat n"
  by (simp add: indices_def)

lemma freeBuffers_fields:
  "fst (freeBuffers s fp fs fv) = 0"
  "paramBuffers' (snd (freeBuffers s fp fs fv)) = []"
  "statBuffers' (snd (freeBuffers s fp fs fv)) = []"
  "ipaBuffers' (snd (freeBuffers s fp fs fv)) = []"
  "calls (snd (freeBuffers s fp fs fv)) = calls s @ [IpaUnmapBuffers (map ipabuf_id (ipaBuffers' s)),
         ReleaseBuffers param_dev, ReleaseBuffers stat_dev, ReleaseBuffers video_dev]"
  "buffers (snd (freeBuffers s fp fs fv)) = snd (drain (paramBuffers' s) (snd (drain (statBuffers' s) (buffers s))))"
  by (simp_all add: freeBuffers_def Let_def split_beta if_distrib [of calls] if_distrib [of paramBuffers']
      if_distrib [of statBuffers'] if_distrib [of ipaBuffers'] if_distrib [of buffers])

lemma freeBuffers_result:
  "freeBuffers s fp fs fv = (ret', s2) \<Longrightarrow>
   ret' = 0 \<and> paramBuffers' s2 = [] \<and> statBuffers' s2 = [] \<and> ipaBuffers' s2 = []
   \<and> calls s2 = calls s @ [IpaUnmapBuffers (map ipabuf_id (ipaBuffers' s)),
         ReleaseBuffers param_dev, ReleaseBuffers stat_dev, ReleaseBuffers video_dev]
   \<and> buffers s2 = (\<lambda>p. if p \<in> set (statBuffers' s) \<union> set (paramBuffers' s) then None else buffers s p)"
  using freeBuffers_fields [of s fp fs fv] by (auto simp: drain_snd fun_eq_iff)

lemma allocateBuffers_success:
  assumes "allocateBuffers s mt n rv rp rs = (0, s1)"
  shows "paramBuffers' s1 = paramBuffers' s @ [brk s ..< brk s + unat (n + 1)]
    \<and> statBuffers' s1 = statBuffers' s @ [brk s + unat (n + 1) ..< brk s + unat (n + 1) + unat (n + 1)]
    \<and> ipaBuffers' s1 = ipaBuffers' s
         @ map (\<lambda>i. \<lparr>ipabuf_id = RKISP1_PARAM_BASE OR i, memory = (ParamPool, i)\<rparr>) (indices (n + 1))
         @ map (\<lambda>i. \<lparr>ipabuf_id = RKISP1_STAT_BASE OR i, memory = (StatPool, i)\<rparr>) (indices (n + 1))
    \<and> calls s1 = calls s @
         [if mt = InternalMemory then ExportBuffers video_dev StreamPool
          else ImportBuffers video_dev StreamPool,
          CreateBuffers ParamPool (n + 1), ExportBuffers param_dev ParamPool,
          CreateBuffers StatPool (n + 1), ExportBuffers stat_dev StatPool,
          IpaMapBuffers (ipaBuffers' s1)]
    \<and> (\<forall>p. p < brk s \<longrightarrow> buffers s1 p = buffers s p)
    \<and> (\<forall>p. brk s + unat (n + 1) + unat (n + 1) \<le> p \<longrightarrow> buffers s1 p = buffers s p)"
proof -
  define s3 where "s3 = call (ExportBuffers stat_dev StatPool) (call (CreateBuffers StatPool (n + 1))
     (call (ExportBuffers param_dev ParamPool) (call (CreateBuffers ParamPool (n + 1))
       (if mt = InternalMemory then call (ExportBuffers video_dev StreamPool) s
        else call (ImportBuffers video_dev StreamPool) s))))"
  define s4 where "s4 = fold allocParam (indices (n + 1)) s3"
  define s5 where "s5 = fold allocStat (indices (n + 1)) s4"
  have r: "rv = 0 \<and> rp = 0 \<and> rs = 0"
    using assms by (auto simp: allocateBuffers_def Let_def split: if_splits)
  have s1: "s1 = call (IpaMapBuffers (ipaBuffers' s5)) s5"
    using assms r by (simp add: allocateBuffers_def Let_def s3_def s4_def s5_def)
  have f3: "paramBuffers' s3 = paramBuffers' s" "statBuffers' s3 = statBuffers' s"
    "ipaBuffers' s3 = ipaBuffers' s" "brk s3 = brk s" "buffers s3 = buffers s"
    "calls s3 = calls s @
         [if mt = InternalMemory then ExportBuffers video_dev StreamPool
          else ImportBuffers video_dev StreamPool,
          CreateBuffers ParamPool (n + 1), ExportBuffers param_dev ParamPool,
          CreateBuffers StatPool (n + 1), ExportBuffers stat_dev StatPool]"
    by (simp_all add: s3_def call_def)
  note p = fold_allocParam[of "indices (n + 1)" s3, folded s4_def]
  note q = fold_allocStat[of "indices (n + 1)" s4, folded s5_def]
  have f1: "paramBuffers' s1 = paramBuffers' s5" "statBuffers' s1 = statBuffers' s5"
    "ipaBuffers' s1 = ipaBuffers' s5" "buffers s1 = buffers s5"
    "calls s1 = calls s5 @ [IpaMapBuffers (ipaBuffers' s5)]"
    by (simp_all add: s1 call_def)
  show ?thesis
    unfolding f1 using p q f3 by simp
qed

text \<open>
  C10. \<open>allocateBuffers\<close> followed by \<open>freeBuffers\<close>: both free queues end empty,
  the IPA registration list is cleared after the ids of all its entries (the list that
  was mapped) have been unmapped, and the parameters, statistics and video device
  buffers are released. After a successful allocation from the empty state the Buffer
  objects created are all deleted again, so the buffer store is as before.
\<close>

theorem allocate_free_round_trip:
  assumes alloc: "allocateBuffers s mt n rv rp rs = (ret, s1)"
    and free: "freeBuffers s1 fp fs fv = (ret', s2)"
  shows "ret' = 0 \<and> paramBuffers' s2 = [] \<and> statBuffers' s2 = [] \<and> ipaBuffers' s2 = []
    \<and> calls s2 = calls s1 @ [IpaUnmapBuffers (map ipabuf_id (ipaBuffers' s1)),
         ReleaseBuffers param_dev, ReleaseBuffers stat_dev, ReleaseBuffers video_dev]
    \<and> (ret = 0 \<longrightarrow>
          last (calls s1) = IpaMapBuffers (ipaBuffers' s1)
        \<and> length (paramBuffers' s1) = length (paramBuffers' s) + unat (n + 1)
        \<and> length (statBuffers' s1) = length (statBuffers' s) + unat (n + 1)
        \<and> map ipabuf_id (ipaBuffers' s1) = map ipabuf_id (ipaBuffers' s)
             @ map (\<lambda>i. RKISP1_PARAM_BASE OR i) (indices (n + 1))
             @ map (\<lambda>i. RKISP1_STAT_BASE OR i) (indices (n + 1)))
    \<and> (ret = 0 \<and> paramBuffers' s = [] \<and> statBuffers' s = []
          \<and> (\<forall>p. brk s \<le> p \<longrightarrow> buffers s p = None) \<longrightarrow> buffers s2 = buffers s)"
proof -
  note fr = freeBuffers_result[OF free]
  have succ: "ret = 0 \<Longrightarrow>
          last (calls s1) = IpaMapBuffers (ipaBuffers' s1)
        \<and> length (paramBuffers' s1) = length (paramBuffers' s) + unat (n + 1)
        \<and> length (statBuffers' s1) = length (statBuffers' s) + unat (n + 1)
        \<and> map ipabuf_id (ipaBuffers' s1) = map ipabuf_id (ipaBuffers' s)
             @ map (\<lambda>i. RKISP1_PARAM_BASE OR i) (indices (n + 1))
             @ map (\<lambda>i. RKISP1_STAT_BASE OR i) (indices (n + 1))"
    using allocateBuffers_success[of s mt n rv rp rs s1] alloc by (simp add: comp_def)
  have heap: "buffers s2 = buffers s"
    if "ret = 0" "paramBuffers' s = []" "statBuffers' s = []" "\<forall>p. brk s \<le> p \<longrightarrow> buffers s p = None"
  proof
    fix p
    from that(1) alloc have a: "allocateBuffers s mt n rv rp rs = (0, s1)" by simp
    note al = allocateBuffers_success[OF a]
    from al that have pb: "paramBuffers' s1 = [brk s ..< brk s + unat (n + 1)]"
      and sb: "statBuffers' s1 = [brk s + unat (n + 1) ..< brk s + unat (n + 1) + unat (n + 1)]"
      by simp_all
    show "buffers s2 p = buffers s p"
    proof (cases "p < brk s")
      case True
      with al have "buffers s1 p = buffers s p" by blast
      with True fr pb sb show ?thesis by simp
    next
      case False
      then have n: "buffers s p = None" using that(4) by simp
      show ?thesis
      proof (cases "p < brk s + unat (n + 1) + unat (n + 1)")
        case True
        with False fr pb sb n show ?thesis by auto
      next
        case False
        with al have "buffers s1 p = buffers s p" by simp
        with False fr pb sb show ?thesis by simp
      qed
    qed
  qed
  from fr succ heap show ?thesis by blast
qed

theorem allocate_free_round_trip_witness:
  "fst (allocateBuffers idle InternalMemory 4 0 0 0) = 0
   \<and> length (paramBuffers' (snd (allocateBuffers idle InternalMemory 4 0 0 0))) = 5
   \<and> length (statBuffers' (snd (allocateBuffers idle InternalMemory 4 0 0 0))) = 5
   \<and> paramBuffers' (snd (freeBuffers (snd (allocateBuffers idle InternalMemory 4 0 0 0)) 0 0 0)) = []
   \<and> statBuffers' (snd (freeBuffers (snd (allocateBuffers idle InternalMemory 4 0 0 0)) 0 0 0)) = []
   \<and> ipaBuffers' (snd (freeBuffers (snd (allocateBuffers idle InternalMemory 4 0 0 0)) 0 0 0)) = []
   \<and> buffers (snd (freeBuffers (snd (allocateBuffers idle InternalMemory 4 0 0 0)) 0 0 0)) = buffers idle"
proof -
  define s1 where "s1 = snd (allocateBuffers idle InternalMemory 4 0 0 0)"
  define s2 where "s2 = snd (freeBuffers s1 0 0 0)"
  have r: "fst (allocateBuffers idle InternalMemory 4 0 0 0) = 0"
    by (simp add: allocateBuffers_def Let_def)
  then have a: "allocateBuffers idle InternalMemory 4 0 0 0 = (0, s1)"
    by (simp add: s1_def prod_eq_iff)
  have f: "freeBuffers s1 0 0 0 = (fst (freeBuffers s1 0 0 0), s2)"
    by (simp add: s2_def)
  have i: "paramBuffers' idle = []" "statBuffers' idle = []" "\<forall>p. brk idle \<le> p \<longrightarrow> buffers idle p = None"
    by (simp_all add: idle_def)
  have u: "unat (4 + 1 :: u32) = 5" by simp
  from allocate_free_round_trip [OF a f] i u r show ?thesis
    unfolding s1_def [symmetric] s2_def [symmetric] by simp
qed

section \<open>Invariants along a run\<close>

lemma length_info_update [simp]: "length (info_update k f m) = length m"
  by (induction m) auto

lemma filter_request_info_update:
  "(\<And>i. request (f i) = request i) \<Longrightarrow>
   length (filter (\<lambda>e. request (snd e) = r) (info_update k f m)) = length (filter (\<lambda>e. request (snd e) = r) m)"
  by (induction m) auto

lemma map_find_erase_same_len: "map_find k m = Some v \<Longrightarrow> Suc (length (map_erase k m)) = length m"
  by (induction m) (auto split: if_splits)

lemma length_map_assign:
  "sorted_wrt (<) (map fst m) \<Longrightarrow>
   length (map_assign k v m) = (if map_find k m = None then Suc (length m) else length m)"
proof (induction m)
  case Nil
  then show ?case by simp
next
  case (Cons e m)
  obtain k' v' where e: "e = (k', v')" by (cases e)
  from Cons.prems e have lt: "\<forall>x \<in> set m. k' < fst x" and srt: "sorted_wrt (<) (map fst m)"
    by simp_all
  consider "k < k'" | "k = k'" | "k' < k" by (metis linorder_less_linear)
  then show ?case
  proof cases
    case 1
    have "k \<notin> fst ` set m" using lt 1 by force
    then have "map_find k m = None" by (simp add: map_find_None_iff)
    with 1 show ?thesis by (simp add: e)
  next
    case 2
    then show ?thesis by (simp add: e)
  next
    case 3
    then have "\<not> k < k'" "k \<noteq> k'" by auto
    with Cons.IH[OF srt] show ?thesis by (simp add: e)
  qed
qed

lemma filter_request_map_assign:
  "length (filter (\<lambda>e. request (snd e) = r) (map_assign k v m))
     \<le> length (filter (\<lambda>e. request (snd e) = r) m) + (if request v = r then 1 else 0)"
  by (induction m) auto

lemma filter_request_map_erase:
  "map_find k m = Some v \<Longrightarrow>
   length (filter (\<lambda>e. request (snd e) = r) (map_erase k m)) + (if request v = r then 1 else 0)
     = length (filter (\<lambda>e. request (snd e) = r) m)"
  by (induction m) (auto split: if_splits)

lemma wf_map_find_frame: "frames_wf m \<Longrightarrow> map_find k m = Some v \<Longrightarrow> frame v = k"
  by (rule wf_frame_key, assumption, erule map_find_Some_mem)

lemma ledger_kept_refl: "frames_wf (frameInfo' s) \<Longrightarrow> ledger_kept r s s"
  by (simp add: ledger_kept_def)

lemma ledger_kept_trans: "ledger_kept r s s1 \<Longrightarrow> ledger_kept r s1 s2 \<Longrightarrow> ledger_kept r s s2"
  unfolding ledger_kept_def by (elim conjE, intro conjI) (assumption, linarith+)

lemma ledger_kept_same:
  "frames_wf (frameInfo' s) \<Longrightarrow> frameInfo' s' = frameInfo' s \<Longrightarrow> paramBuffers' s' = paramBuffers' s
   \<Longrightarrow> statBuffers' s' = statBuffers' s \<Longrightarrow> filter (is_completion r) (calls s') = filter (is_completion r) (calls s)
   \<Longrightarrow> ledger_kept r s s'"
  by (simp add: ledger_kept_def completions_def live_for_def)

lemma ledger_kept_flag:
  assumes "frames_wf (frameInfo' s)" "\<And>i. request (f i) = request i" "\<And>i. frame (f i) = frame i"
    "frameInfo' s' = info_update k f (frameInfo' s)" "paramBuffers' s' = paramBuffers' s"
    "statBuffers' s' = statBuffers' s" "filter (is_completion r) (calls s') = filter (is_completion r) (calls s)"
  shows "ledger_kept r s s'"
  using assms wf_info_update[of "frameInfo' s" f k] filter_request_info_update[of f r k "frameInfo' s"]
  by (simp add: ledger_kept_def completions_def live_for_def)

lemma destroy_ledger:
  assumes wf: "frames_wf (frameInfo' s)" and f: "map_find k (frameInfo' s) = Some info"
  shows "frames_wf (frameInfo' (snd (destroy s k)))"
    "length (paramBuffers' (snd (destroy s k))) + length (frameInfo' (snd (destroy s k)))
       = length (paramBuffers' s) + length (frameInfo' s)"
    "length (statBuffers' (snd (destroy s k))) + length (frameInfo' (snd (destroy s k)))
       = length (statBuffers' s) + length (frameInfo' s)"
    "live_for r (snd (destroy s k)) + (if request info = r then 1 else 0) = live_for r s"
    "calls (snd (destroy s k)) = calls s"
proof -
  have fr: "frame info = k" using wf f by (rule wf_map_find_frame)
  have d: "snd (destroy s k) = s\<lparr>paramBuffers' := paramBuffers' s @ [paramBuffer info],
                 statBuffers' := statBuffers' s @ [statBuffer info],
                 frameInfo' := map_erase k (frameInfo' s)\<rparr>"
    using f fr by (simp add: destroy_def find_frame_def)
  show "frames_wf (frameInfo' (snd (destroy s k)))" using wf by (simp add: d wf_map_erase)
  show "length (paramBuffers' (snd (destroy s k))) + length (frameInfo' (snd (destroy s k)))
       = length (paramBuffers' s) + length (frameInfo' s)"
    using map_find_erase_same_len[OF f] by (simp add: d)
  show "length (statBuffers' (snd (destroy s k))) + length (frameInfo' (snd (destroy s k)))
       = length (statBuffers' s) + length (frameInfo' s)"
    using map_find_erase_same_len[OF f] by (simp add: d)
  show "live_for r (snd (destroy s k)) + (if request info = r then 1 else 0) = live_for r s"
    using filter_request_map_erase[OF f, of r] by (simp add: d live_for_def)
  show "calls (snd (destroy s k)) = calls s" by (simp add: d)
qed



lemma tryCompleteRequest_ledger:
  assumes wf: "frames_wf (frameInfo' s)" and t: "tryCompleteRequest s req = Inr s'"
  shows "ledger_kept r s s'"
proof (cases "scan_request req (frameInfo' s)")
  case None
  with t have "s' = LOG ''Can not locate info from request'' s"
    by (auto simp: tryCompleteRequest_def find_request_def split: option.splits)
  with wf show ?thesis by (simp add: ledger_kept_same)
next
  case (Some e)
  obtain k info where e: "e = (k, info)" by (cases e)
  from Some e have sc: "scan_request req (frameInfo' s) = Some (k, info)" by simp
  then have mem: "(k, info) \<in> set (frameInfo' s)" and rq: "request info = req"
    by (simp_all add: scan_request_Some)
  have fr: "frame info = k" using wf mem by (rule wf_frame_key)
  have mf: "map_find k (frameInfo' s) = Some info" using wf mem by (rule wf_mem_map_find)
  from t obtain cam where cam: "activeCamera' s = Some cam"
    by (auto simp: tryCompleteRequest_def split: option.splits)
  from t sc cam fr consider "s' = s"
    | "s' = snd (destroy (call (CompleteRequest cam req) s) k)"
    by (auto simp: tryCompleteRequest_def find_request_def split: option.splits if_splits)
  then show ?thesis
  proof cases
    case 1
    with wf show ?thesis by (simp add: ledger_kept_refl)
  next
    case 2
    define s1 where "s1 = call (CompleteRequest cam req) s"
    have wf1: "frames_wf (frameInfo' s1)" and mf1: "map_find k (frameInfo' s1) = Some info"
      using wf mf by (simp_all add: s1_def)
    note d = destroy_ledger[OF wf1 mf1]
    have c1: "completions r s1 = completions r s + (if req = r then 1 else 0)"
      by (simp add: s1_def completions_def)
    have l1: "live_for r s1 = live_for r s" by (simp add: s1_def live_for_def)
    have p1: "paramBuffers' s1 = paramBuffers' s" "statBuffers' s1 = statBuffers' s"
      "frameInfo' s1 = frameInfo' s" by (simp_all add: s1_def)
    have c2: "completions r s' = completions r s1"
      using d(5) by (simp add: 2 s1_def [symmetric] completions_def)
    have s': "s' = snd (destroy s1 k)" by (simp add: 2 s1_def)
    show ?thesis
      unfolding ledger_kept_def s'
      using d(1) d(2) d(3) d(4)[of r] c1 l1 c2 rq p1 unfolding s'
      by (intro conjI) (simp_all split: if_splits)
  qed
qed


lemma bufferReady_ledger:
  assumes wf: "frames_wf (frameInfo' s)" and t: "bufferReady s b = Inr s'"
  shows "ledger_kept r s s'"
proof -
  from t obtain cam where c: "activeCamera' s = Some cam"
    by (cases "activeCamera' s") (simp_all add: bufferReady_def)
  from t c obtain buf where bf: "buffers s b = Some buf"
    by (cases "buffers s b") (simp_all add: bufferReady_def)
  from t c bf obtain req where rq: "request' buf = Some req"
    by (cases "request' buf") (simp_all add: bufferReady_def Let_def)
  define s2 where "s2 = (let s1 = call (NotifyStartOfExposure (sequence' buf) (timestamp' buf)) s
            in if frame' s1 \<le> sequence' buf then s1\<lparr>frame' := sequence' buf + 1\<rparr> else s1)"
  from t c bf rq have u: "(case completeBuffer s2 cam req b of Inl e \<Rightarrow> Inl e
      | Inr s3 \<Rightarrow> tryCompleteRequest s3 req) = Inr s'"
    by (simp add: bufferReady_def s2_def Let_def)
  then obtain s3 where s3: "completeBuffer s2 cam req b = Inr s3"
    and t3: "tryCompleteRequest s3 req = Inr s'"
    by (cases "completeBuffer s2 cam req b") simp_all
  have f2: "frameInfo' s2 = frameInfo' s" "paramBuffers' s2 = paramBuffers' s"
    "statBuffers' s2 = statBuffers' s"
    "calls s2 = calls s @ [NotifyStartOfExposure (sequence' buf) (timestamp' buf)]"
    by (simp_all add: s2_def Let_def)
  from s3 obtain rr where s3': "s3 = call (CompleteBuffer cam req b)
                (s2\<lparr>requests := (requests s2)(req \<mapsto> rr)\<rparr>)"
    by (cases "requests s2 req") (auto simp: completeBuffer_def)
  have "frameInfo' s3 = frameInfo' s" "paramBuffers' s3 = paramBuffers' s"
    "statBuffers' s3 = statBuffers' s"
    "filter (is_completion r) (calls s3) = filter (is_completion r) (calls s)"
    by (simp_all add: s3' f2)
  with wf have k: "ledger_kept r s s3" and wf3: "frames_wf (frameInfo' s3)"
    by (simp_all add: ledger_kept_same)
  from k tryCompleteRequest_ledger[OF wf3 t3] show ?thesis by (rule ledger_kept_trans)
qed

lemma paramReady_ledger:
  assumes wf: "frames_wf (frameInfo' s)" and t: "paramReady s b = Inr s'"
  shows "ledger_kept r s s'"
proof -
  from t obtain cam where c: "activeCamera' s = Some cam"
    by (cases "activeCamera' s") (simp_all add: paramReady_def)
  from t c obtain e where sb: "scan_buffer b (frameInfo' s) = Some e"
    by (cases "scan_buffer b (frameInfo' s)") (simp_all add: paramReady_def find_buffer_def)
  obtain k info where e: "e = (k, info)" by (cases e)
  define s1 where "s1 = s\<lparr>frameInfo' := info_update k (\<lambda>i. i\<lparr>paramDequeued := True\<rparr>) (frameInfo' s)\<rparr>"
  from t c sb e have t1: "tryCompleteRequest s1 (request info) = Inr s'"
    by (simp add: paramReady_def find_buffer_def s1_def)
  have k: "ledger_kept r s s1"
    by (rule ledger_kept_flag[OF wf, where f = "\<lambda>i. i\<lparr>paramDequeued := True\<rparr>" and k = k])
       (simp_all add: s1_def)
  then have wf1: "frames_wf (frameInfo' s1)" by (simp add: ledger_kept_def)
  from k tryCompleteRequest_ledger[OF wf1 t1] show ?thesis by (rule ledger_kept_trans)
qed

lemma statReady_ledger:
  assumes wf: "frames_wf (frameInfo' s)" and t: "statReady s b = Inr s'"
  shows "ledger_kept r s s'"
proof -
  from t have "frameInfo' s' = frameInfo' s" "paramBuffers' s' = paramBuffers' s"
    "statBuffers' s' = statBuffers' s"
    "filter (is_completion r) (calls s') = filter (is_completion r) (calls s)"
    by (auto simp: statReady_def find_buffer_def split: option.splits prod.splits)
  with wf show ?thesis by (simp add: ledger_kept_same)
qed

lemma metadataReady_ledger:
  assumes wf: "frames_wf (frameInfo' s)" and t: "metadataReady s f md = Inr s'"
  shows "ledger_kept r s s'"
proof (cases "map_find f (frameInfo' s)")
  case None
  with t have "s' = LOG ''Can not locate info from frame'' s"
    by (simp add: metadataReady_def find_frame_def)
  with wf show ?thesis by (simp add: ledger_kept_same)
next
  case (Some info)
  with t obtain rq where q: "requests s (request info) = Some rq"
    by (cases "requests s (request info)") (simp_all add: metadataReady_def find_frame_def)
  define s1 where "s1 = s\<lparr>requests := (requests s)(request info \<mapsto> rq\<lparr>metadata' := md\<rparr>),
              frameInfo' := info_update f (\<lambda>i. i\<lparr>metadataProcessed := True\<rparr>) (frameInfo' s)\<rparr>"
  from t Some q have t1: "tryCompleteRequest s1 (request info) = Inr s'"
    by (simp add: metadataReady_def find_frame_def s1_def)
  have k: "ledger_kept r s s1"
    by (rule ledger_kept_flag[OF wf, where f = "\<lambda>i. i\<lparr>metadataProcessed := True\<rparr>" and k = f])
       (simp_all add: s1_def)
  then have wf1: "frames_wf (frameInfo' s1)" by (simp add: ledger_kept_def)
  from k tryCompleteRequest_ledger[OF wf1 t1] show ?thesis by (rule ledger_kept_trans)
qed

lemma queueFrameAction_ledger:
  assumes wf: "frames_wf (frameInfo' s)" and t: "queueFrameAction s f action = Inr s'"
  shows "ledger_kept r s s'"
proof (cases "operation action")
  case RKISP1_IPA_ACTION_V4L2_SET
  with t have "frameInfo' s' = frameInfo' s" "paramBuffers' s' = paramBuffers' s"
    "statBuffers' s' = statBuffers' s" "calls s' = calls s"
    by (auto simp: queueFrameAction_def split: list.splits)
  with wf show ?thesis by (simp add: ledger_kept_same)
next
  case RKISP1_IPA_ACTION_PARAM_FILLED
  show ?thesis
  proof (cases "map_find f (frameInfo' s)")
    case None
    with t RKISP1_IPA_ACTION_PARAM_FILLED have "s' = LOG ''Can not locate info from frame'' s"
      by (simp add: queueFrameAction_def find_frame_def)
    with wf show ?thesis by (simp add: ledger_kept_same)
  next
    case (Some info)
    with t RKISP1_IPA_ACTION_PARAM_FILLED
    have s': "s' = s\<lparr>frameInfo' := info_update f (\<lambda>i. i\<lparr>paramFilled := True\<rparr>) (frameInfo' s)\<rparr>"
      by (simp add: queueFrameAction_def find_frame_def)
    show ?thesis
      by (rule ledger_kept_flag[OF wf, where f = "\<lambda>i. i\<lparr>paramFilled := True\<rparr>" and k = f])
         (simp_all add: s')
  qed
next
  case RKISP1_IPA_ACTION_METADATA
  with t obtain c where "metadataReady s f c = Inr s'"
    by (auto simp: queueFrameAction_def split: list.splits)
  with wf show ?thesis by (rule metadataReady_ledger)
next
  case RKISP1_IPA_EVENT_SIGNAL_STAT_BUFFER
  with t have "s' = LOG ''Unkown action'' s" by (simp add: queueFrameAction_def)
  with wf show ?thesis by (simp add: ledger_kept_same)
next
  case RKISP1_IPA_EVENT_QUEUE_REQUEST
  with t have "s' = LOG ''Unkown action'' s" by (simp add: queueFrameAction_def)
  with wf show ?thesis by (simp add: ledger_kept_same)
next
  case (UnknownOperation n)
  with t have "s' = LOG ''Unkown action'' s" by (simp add: queueFrameAction_def)
  with wf show ?thesis by (simp add: ledger_kept_same)
qed

lemma runAction_ledger:
  assumes wf: "frames_wf (frameInfo' s)" and t: "runAction s n = Inr s'"
  shows "ledger_kept r s s'"
proof -
  from t have "frameInfo' s' = frameInfo' s" "paramBuffers' s' = paramBuffers' s"
    "statBuffers' s' = statBuffers' s"
    "filter (is_completion r) (calls s') = filter (is_completion r) (calls s)"
    by (auto simp: runAction_def runSetSensor_def runQueueBuffers_def find_frame_def Let_def
             split: if_splits FrameAction.splits option.splits)
  with wf show ?thesis by (simp add: ledger_kept_same)
qed

lemma start_ledger:
  assumes wf: "frames_wf (frameInfo' s)"
  shows "ledger_kept r s (snd (start s cam rp rs rv))"
proof -
  have "frameInfo' (snd (start s cam rp rs rv)) = frameInfo' s"
    "paramBuffers' (snd (start s cam rp rs rv)) = paramBuffers' s"
    "statBuffers' (snd (start s cam rp rs rv)) = statBuffers' s"
    "filter (is_completion r) (calls (snd (start s cam rp rs rv))) = filter (is_completion r) (calls s)"
    by (simp_all add: start_def Let_def)
  with wf show ?thesis by (simp add: ledger_kept_same)
qed

lemma stop_ledger:
  assumes wf: "frames_wf (frameInfo' s)"
  shows "ledger_kept r s (stop s cam rv rs rp)"
proof -
  have "frameInfo' (stop s cam rv rs rp) = frameInfo' s"
    "paramBuffers' (stop s cam rv rs rp) = paramBuffers' s"
    "statBuffers' (stop s cam rv rs rp) = statBuffers' s"
    "filter (is_completion r) (calls (stop s cam rv rs rp)) = filter (is_completion r) (calls s)"
    by (simp_all add: stop_def Let_def)
  with wf show ?thesis by (simp add: ledger_kept_same)
qed


lemma create_None:
  "create s f req st = Inr (None, s1) \<Longrightarrow> \<exists>msg. s1 = LOG msg s"
  by (auto simp: create_def Let_def split: list.splits option.splits)

lemma create_Some:
  "create s f req st = Inr (Some info, s1) \<Longrightarrow>
   request info = req \<and> frame info = f
   \<and> paramBuffers' s = paramBuffer info # paramBuffers' s1
   \<and> statBuffers' s = statBuffer info # statBuffers' s1
   \<and> frameInfo' s1 = map_assign f info (frameInfo' s)
   \<and> calls s1 = calls s \<and> frame' s1 = frame' s \<and> timeline' s1 = timeline' s"
  by (auto simp: create_def Let_def split: list.splits option.splits)

lemma queueRequest_cases:
  assumes q: "queueRequest s cam req = Inr (ret, s')"
  shows "(ret \<noteq> 0 \<and> frameInfo' s' = frameInfo' s \<and> paramBuffers' s' = paramBuffers' s
          \<and> statBuffers' s' = statBuffers' s
          \<and> filter (is_completion r) (calls s') = filter (is_completion r) (calls s))
       \<or> (ret = 0 \<and> (\<exists>info. request info = req \<and> frame info = frame' s
             \<and> frameInfo' s' = map_assign (frame' s) info (frameInfo' s)
             \<and> Suc (length (paramBuffers' s')) = length (paramBuffers' s)
             \<and> Suc (length (statBuffers' s')) = length (statBuffers' s)
             \<and> filter (is_completion r) (calls s') = filter (is_completion r) (calls s)))"
proof -
  define s0 where "s0 = call (BaseQueueRequest cam req) s"
  from q obtain res s1 where c: "create s0 (frame' s0) req (stream' s0) = Inr (res, s1)"
    by (cases "create s0 (frame' s0) req (stream' s0)")
       (auto simp: queueRequest_def Let_def s0_def)
  show ?thesis
  proof (cases res)
    case None
    with q c have "ret = - ENOENT" "s' = s1"
      by (simp_all add: queueRequest_def Let_def s0_def)
    moreover from c None obtain msg where "s1 = LOG msg s0" using create_None by blast
    ultimately show ?thesis by (simp add: s0_def ENOENT_def)
  next
    case (Some info)
    note cs = create_Some[OF c[unfolded Some]]
    from q c Some obtain ev where "ret = 0"
      and s': "s' = (call (IpaProcessEvent ev) s1)
                 \<lparr>timeline' := timeline' s1 @ [RkISP1ActionQueueBuffers (frame' s1)],
                   frame' := frame' s1 + 1\<rparr>"
      by (auto simp: queueRequest_def Let_def s0_def split: option.splits)
    moreover have "request info = req \<and> frame info = frame' s
             \<and> frameInfo' s' = map_assign (frame' s) info (frameInfo' s)
             \<and> Suc (length (paramBuffers' s')) = length (paramBuffers' s)
             \<and> Suc (length (statBuffers' s')) = length (statBuffers' s)
             \<and> filter (is_completion r) (calls s') = filter (is_completion r) (calls s)"
      using cs by (simp add: s' s0_def)
    ultimately show ?thesis by blast
  qed
qed

lemma frameInfo'_fold_allocParam [simp]: "frameInfo' (fold allocParam is s) = frameInfo' s"
  by (induction "is" arbitrary: s) (simp_all add: allocParam_def new_Buffer_def Let_def)

lemma frameInfo'_fold_allocStat [simp]: "frameInfo' (fold allocStat is s) = frameInfo' s"
  by (induction "is" arbitrary: s) (simp_all add: allocStat_def new_Buffer_def Let_def)

lemma calls_fold_allocParam [simp]: "calls (fold allocParam is s) = calls s"
  using fold_allocParam by blast

lemma calls_fold_allocStat [simp]: "calls (fold allocStat is s) = calls s"
  using fold_allocStat by blast

lemma allocateBuffers_frames:
  "frameInfo' (snd (allocateBuffers s mt n rv rp rs)) = frameInfo' s"
  "filter (is_completion r) (calls (snd (allocateBuffers s mt n rv rp rs))) = filter (is_completion r) (calls s)"
  by (simp_all add: allocateBuffers_def Let_def)

lemma freeBuffers_frames:
  "frameInfo' (snd (freeBuffers s fp fs fv)) = frameInfo' s"
  "filter (is_completion r) (calls (snd (freeBuffers s fp fs fv))) = filter (is_completion r) (calls s)"
  by (simp_all add: freeBuffers_fields)
     (simp add: freeBuffers_def Let_def split_beta if_distrib [of frameInfo'])

lemma ledger_kept_tally:
  "ledger_kept r s s' \<Longrightarrow>
   frames_wf (frameInfo' s') \<and> completions r s' + live_for r s' = completions r s + live_for r s"
  by (simp add: ledger_kept_def)

lemma step_tally:
  assumes wf: "frames_wf (frameInfo' s)" and st: "step s e = Inr s'"
  shows "frames_wf (frameInfo' s')
     \<and> completions r s' + live_for r s' \<le> completions r s + live_for r s + (if is_admission r e then 1 else 0)"
proof (cases e)
  case (EvAllocateBuffers mt n rv rp rs)
  with st have "s' = snd (allocateBuffers s mt n rv rp rs)" by simp
  with wf show ?thesis
    by (simp add: EvAllocateBuffers completions_def live_for_def allocateBuffers_frames)
next
  case (EvFreeBuffers rp rs rv)
  with st have "s' = snd (freeBuffers s rp rs rv)" by simp
  with wf show ?thesis
    by (simp add: EvFreeBuffers completions_def live_for_def freeBuffers_frames)
next
  case (EvStart cam rp rs rv)
  with st have "s' = snd (start s cam rp rs rv)" by simp
  with ledger_kept_tally[OF start_ledger[OF wf, of r cam rp rs rv]] show ?thesis
    by (simp add: EvStart)
next
  case (EvStop cam rv rs rp)
  with st have "s' = stop s cam rv rs rp" by simp
  with ledger_kept_tally[OF stop_ledger[OF wf, of r cam rv rs rp]] show ?thesis
    by (simp add: EvStop)
next
  case (EvQueueRequest cam req)
  with st obtain ret where q: "queueRequest s cam req = Inr (ret, s')"
    by (cases "queueRequest s cam req") (auto split: prod.splits)
  from queueRequest_cases[OF q, of r]
  show ?thesis
  proof (elim disjE conjE exE)
    assume "frameInfo' s' = frameInfo' s"
      "filter (is_completion r) (calls s') = filter (is_completion r) (calls s)"
    with wf show ?thesis by (simp add: completions_def live_for_def)
  next
    fix info
    assume a: "request info = req" "frame info = frame' s"
      "frameInfo' s' = map_assign (frame' s) info (frameInfo' s)"
      "filter (is_completion r) (calls s') = filter (is_completion r) (calls s)"
    have "frames_wf (frameInfo' s')" using wf a(2) a(3) by (simp add: wf_map_assign)
    moreover have "live_for r s' \<le> live_for r s + (if req = r then 1 else 0)"
      using filter_request_map_assign[of r "frame' s" info "frameInfo' s"] a(1) a(3)
      by (simp add: live_for_def)
    ultimately show ?thesis using a(4) by (auto simp: EvQueueRequest completions_def)
  qed
next
  case (EvBufferReady b)
  with st have "bufferReady s b = Inr s'" by simp
  from ledger_kept_tally[OF bufferReady_ledger[OF wf this, of r]] show ?thesis
    by (simp add: EvBufferReady)
next
  case (EvParamReady b)
  with st have "paramReady s b = Inr s'" by simp
  from ledger_kept_tally[OF paramReady_ledger[OF wf this, of r]] show ?thesis
    by (simp add: EvParamReady)
next
  case (EvStatReady b)
  with st have "statReady s b = Inr s'" by simp
  from ledger_kept_tally[OF statReady_ledger[OF wf this, of r]] show ?thesis
    by (simp add: EvStatReady)
next
  case (EvQueueFrameAction f action)
  with st have "queueFrameAction s f action = Inr s'" by simp
  from ledger_kept_tally[OF queueFrameAction_ledger[OF wf this, of r]] show ?thesis
    by (simp add: EvQueueFrameAction)
next
  case (EvRunAction n)
  with st have "runAction s n = Inr s'" by simp
  from ledger_kept_tally[OF runAction_ledger[OF wf this, of r]] show ?thesis
    by (simp add: EvRunAction)
next
  case (EvObjects bs rs)
  with st have "s' = s\<lparr>buffers := bs, requests := rs\<rparr>" by simp
  with wf show ?thesis by (simp add: EvObjects completions_def live_for_def)
qed

lemma run_tally:
  "frames_wf (frameInfo' s) \<Longrightarrow> run s es = Inr s' \<Longrightarrow>
   frames_wf (frameInfo' s')
   \<and> completions r s' + live_for r s' \<le> completions r s + live_for r s + admissions r es"
proof (induction es arbitrary: s)
  case Nil
  then show ?case by (simp add: admissions_def)
next
  case (Cons e es)
  from Cons.prems(2) obtain s1 where s1: "step s e = Inr s1" and r1: "run s1 es = Inr s'"
    by (cases "step s e") simp_all
  note a = step_tally[OF Cons.prems(1) s1, of r]
  note b = Cons.IH[OF conjunct1[OF a] r1]
  from a b show ?case by (auto simp: admissions_def)
qed

lemma scan_request_None_iff:
  "scan_request r m = None \<longleftrightarrow> filter (\<lambda>e. request (snd e) = r) m = []"
  by (induction m) auto

text \<open>
  C3. In every run of the handler from a well-formed state with no FrameInfo for
  Request \<open>r\<close>, the calls of \<open>completeRequest\<close> for \<open>r\<close> plus the FrameInfos
  still serving it never exceed the admissions of \<open>r\<close>. So a Request admitted once
  is completed at most once; and once it has been completed no FrameInfo is left for
  it, so a further completion attempt finds nothing and only logs. (A run that ends in
  a fault has only fault-free proper prefixes, so the bound holds up to the fault.)
\<close>

theorem completeRequest_at_most_once:
  assumes wf: "frames_wf (frameInfo' s)"
    and none: "scan_request r (frameInfo' s) = None"
    and run: "run s es = Inr s'"
  shows "completions r s' + live_for r s' \<le> completions r s + admissions r es
    \<and> (admissions r es \<le> 1 \<longrightarrow>
          completions r s' \<le> completions r s + 1
        \<and> (completions r s' = completions r s + 1 \<longrightarrow>
              scan_request r (frameInfo' s') = None
            \<and> tryCompleteRequest s' r =
                (case activeCamera' s' of
                   None \<Rightarrow> Inl NullDeref
                 | Some cam \<Rightarrow> Inr (LOG ''Can not locate info from request'' s'))))"
proof -
  from none have l0: "live_for r s = 0" by (simp add: scan_request_None_iff live_for_def)
  from run_tally[OF wf run, of r] l0
  have t: "completions r s' + live_for r s' \<le> completions r s + admissions r es" by simp
  have "scan_request r (frameInfo' s') = None
        \<and> tryCompleteRequest s' r =
                (case activeCamera' s' of
                   None \<Rightarrow> Inl NullDeref
                 | Some cam \<Rightarrow> Inr (LOG ''Can not locate info from request'' s'))"
    if "admissions r es \<le> 1" "completions r s' = completions r s + 1"
  proof -
    from t that have "live_for r s' = 0" by simp
    then have "scan_request r (frameInfo' s') = None"
      by (simp add: scan_request_None_iff live_for_def)
    then show ?thesis
      by (simp add: tryCompleteRequest_def find_request_def split: option.splits)
  qed
  with t show ?thesis by auto
qed


lemma ends_inD: "ends_in s es P \<Longrightarrow> \<exists>s'. run s es = Inr s' \<and> P s'"
  by (cases "run s es") (simp_all add: ends_in_def)

lemma ledger_kept_balance:
  "ledger_kept r s s' \<Longrightarrow> pool_balance n s \<Longrightarrow> pool_balance n s' \<and> frames_wf (frameInfo' s')"
  by (simp add: ledger_kept_def pool_balance_def)

lemma create_balance:
  assumes bal: "pool_balance n s" and wf: "frames_wf (frameInfo' s)"
    and fresh: "map_find f (frameInfo' s) = None"
    and c: "create s f req st = Inr (res, s')"
  shows "pool_balance n s' \<and> frames_wf (frameInfo' s')"
proof (cases res)
  case None
  with c obtain msg where "s' = LOG msg s" using create_None by blast
  with bal wf show ?thesis by (simp add: pool_balance_def)
next
  case (Some info)
  note cs = create_Some[OF c[unfolded Some]]
  from wf have srt: "sorted_wrt (<) (map fst (frameInfo' s))" by (simp add: frames_wf_def)
  have len: "length (frameInfo' s') = Suc (length (frameInfo' s))"
    using cs fresh length_map_assign[OF srt, of f info] by simp
  have "length (paramBuffers' s) = Suc (length (paramBuffers' s'))"
    "length (statBuffers' s) = Suc (length (statBuffers' s'))"
    using cs by simp_all
  moreover have "frames_wf (frameInfo' s')" using cs wf by (simp add: wf_map_assign)
  ultimately show ?thesis using bal len by (simp add: pool_balance_def)
qed

lemma destroy_balance:
  assumes bal: "pool_balance n s" and wf: "frames_wf (frameInfo' s)"
  shows "pool_balance n (snd (destroy s f)) \<and> frames_wf (frameInfo' (snd (destroy s f)))"
proof (cases "map_find f (frameInfo' s)")
  case None
  then have "snd (destroy s f) = LOG ''Can not locate info from frame'' s"
    by (simp add: destroy_def find_frame_def)
  with bal wf show ?thesis by (simp add: pool_balance_def)
next
  case (Some info)
  note d = destroy_ledger[OF wf Some]
  from d(1) d(2) d(3) bal show ?thesis by (simp add: pool_balance_def)
qed

lemma queueRequest_balance:
  assumes bal: "pool_balance n s" and wf: "frames_wf (frameInfo' s)"
    and fresh: "map_find (frame' s) (frameInfo' s) = None"
    and q: "queueRequest s cam req = Inr (ret, s')"
  shows "pool_balance n s' \<and> frames_wf (frameInfo' s')"
  using queueRequest_cases[OF q, of 0]
proof (elim disjE conjE exE)
  assume "frameInfo' s' = frameInfo' s" "paramBuffers' s' = paramBuffers' s"
    "statBuffers' s' = statBuffers' s"
  with bal wf show ?thesis by (simp add: pool_balance_def)
next
  fix info
  assume a: "frame info = frame' s" "frameInfo' s' = map_assign (frame' s) info (frameInfo' s)"
    "Suc (length (paramBuffers' s')) = length (paramBuffers' s)"
    "Suc (length (statBuffers' s')) = length (statBuffers' s)"
  from wf have srt: "sorted_wrt (<) (map fst (frameInfo' s))" by (simp add: frames_wf_def)
  have len: "length (frameInfo' s') = Suc (length (frameInfo' s))"
    using a(2) fresh length_map_assign[OF srt, of "frame' s" info] by simp
  have "frames_wf (frameInfo' s')" using a(1) a(2) wf by (simp add: wf_map_assign)
  with bal len a(3) a(4) show ?thesis by (simp add: pool_balance_def)
qed

lemma step_balance:
  assumes bal: "pool_balance n s" and wf: "frames_wf (frameInfo' s)"
    and ev: "streaming_event e" and fresh: "admits_fresh s e" and st: "step s e = Inr s'"
  shows "pool_balance n s' \<and> frames_wf (frameInfo' s')"
proof (cases e)
  case (EvAllocateBuffers mt n rv rp rs)
  with ev show ?thesis by simp
next
  case (EvFreeBuffers rp rs rv)
  with ev show ?thesis by simp
next
  case (EvStart cam rp rs rv)
  with st have "s' = snd (start s cam rp rs rv)" by simp
  with ledger_kept_balance[OF start_ledger[OF wf, of 0 cam rp rs rv] bal] show ?thesis by simp
next
  case (EvStop cam rv rs rp)
  with st have "s' = stop s cam rv rs rp" by simp
  with ledger_kept_balance[OF stop_ledger[OF wf, of 0 cam rv rs rp] bal] show ?thesis by simp
next
  case (EvQueueRequest cam req)
  with st obtain ret where q: "queueRequest s cam req = Inr (ret, s')"
    by (cases "queueRequest s cam req") (auto split: prod.splits)
  from fresh EvQueueRequest have "map_find (frame' s) (frameInfo' s) = None" by simp
  from queueRequest_balance[OF bal wf this q] show ?thesis .
next
  case (EvBufferReady b)
  with st have "bufferReady s b = Inr s'" by simp
  from ledger_kept_balance[OF bufferReady_ledger[OF wf this, of 0] bal] show ?thesis .
next
  case (EvParamReady b)
  with st have "paramReady s b = Inr s'" by simp
  from ledger_kept_balance[OF paramReady_ledger[OF wf this, of 0] bal] show ?thesis .
next
  case (EvStatReady b)
  with st have "statReady s b = Inr s'" by simp
  from ledger_kept_balance[OF statReady_ledger[OF wf this, of 0] bal] show ?thesis .
next
  case (EvQueueFrameAction f action)
  with st have "queueFrameAction s f action = Inr s'" by simp
  from ledger_kept_balance[OF queueFrameAction_ledger[OF wf this, of 0] bal] show ?thesis .
next
  case (EvRunAction k)
  with st have "runAction s k = Inr s'" by simp
  from ledger_kept_balance[OF runAction_ledger[OF wf this, of 0] bal] show ?thesis .
next
  case (EvObjects bs rs)
  with st have "s' = s\<lparr>buffers := bs, requests := rs\<rparr>" by simp
  with bal wf show ?thesis by (simp add: pool_balance_def)
qed

lemma allocateBuffers_balance:
  assumes "paramBuffers' s0 = []" "statBuffers' s0 = []" "frameInfo' s0 = []"
    and a: "allocateBuffers s0 mt c rv rp rs = (0, s1)"
  shows "pool_balance (unat (c + 1)) s1 \<and> frames_wf (frameInfo' s1)"
proof -
  note al = allocateBuffers_success[OF a]
  have "frameInfo' s1 = frameInfo' s0"
    using allocateBuffers_frames(1)[of s0 mt c rv rp rs] a by simp
  with al assms(1-3) show ?thesis by (simp add: pool_balance_def frames_wf_def)
qed

text \<open>
  C4 (amended). A successful \<open>allocateBuffers\<close> from the empty state establishes, for
  both roles, free queue plus live FrameInfos = \<open>bufferCount + 1\<close>. \<open>create\<close> keeps
  the equality when its frame number is not already in the table, \<open>destroy\<close> keeps
  it always, and so does every entry point other than allocate and free, provided
  \<open>queueRequest\<close> is not called while its frame number is live.
\<close>

theorem pool_balance_kept:
  "(paramBuffers' s0 = [] \<and> statBuffers' s0 = [] \<and> frameInfo' s0 = []
      \<and> allocateBuffers s0 mt c rv rp rs = (0, s1)
     \<longrightarrow> pool_balance (unat (c + 1)) s1 \<and> frames_wf (frameInfo' s1))
   \<and> (pool_balance n s \<and> frames_wf (frameInfo' s) \<and> map_find f (frameInfo' s) = None
      \<and> create s f req st = Inr (res, s')
     \<longrightarrow> pool_balance n s' \<and> frames_wf (frameInfo' s'))
   \<and> (pool_balance n s \<and> frames_wf (frameInfo' s)
     \<longrightarrow> pool_balance n (snd (destroy s f)) \<and> frames_wf (frameInfo' (snd (destroy s f))))
   \<and> (pool_balance n s \<and> frames_wf (frameInfo' s) \<and> streaming_event e \<and> admits_fresh s e
      \<and> step s e = Inr s''
     \<longrightarrow> pool_balance n s'' \<and> frames_wf (frameInfo' s''))"
proof (intro conjI)
  show "paramBuffers' s0 = [] \<and> statBuffers' s0 = [] \<and> frameInfo' s0 = []
      \<and> allocateBuffers s0 mt c rv rp rs = (0, s1)
     \<longrightarrow> pool_balance (unat (c + 1)) s1 \<and> frames_wf (frameInfo' s1)"
    using allocateBuffers_balance[of s0 mt c rv rp rs s1] by blast
  show "pool_balance n s \<and> frames_wf (frameInfo' s) \<and> map_find f (frameInfo' s) = None
      \<and> create s f req st = Inr (res, s')
     \<longrightarrow> pool_balance n s' \<and> frames_wf (frameInfo' s')"
    using create_balance[of n s f req st res s'] by blast
  show "pool_balance n s \<and> frames_wf (frameInfo' s)
     \<longrightarrow> pool_balance n (snd (destroy s f)) \<and> frames_wf (frameInfo' (snd (destroy s f)))"
    using destroy_balance[of n s f] by blast
  show "pool_balance n s \<and> frames_wf (frameInfo' s) \<and> streaming_event e \<and> admits_fresh s e
      \<and> step s e = Inr s''
     \<longrightarrow> pool_balance n s'' \<and> frames_wf (frameInfo' s'')"
    using step_balance[of n s e s''] by blast
qed

lemma run_append:
  "run s (es @ es') = (case run s es of Inl e \<Rightarrow> Inl e | Inr s1 \<Rightarrow> run s1 es')"
  by (induction es arbitrary: s) (auto split: sum.splits)

text \<open>
  The claim C4 as stated fails after a restart: frame 0 is still live when \<open>start\<close>
  resets the counter, the next \<open>create\<close> overwrites its entry and takes two more
  buffers, and both free queues are empty with a single live FrameInfo.
\<close>

theorem restart_breaks_pool_balance:
  "ends_in idle admitted (pool_balance 2)
   \<and> ends_in idle restart_scenario
        (\<lambda>s. length (paramBuffers' s) = 0 \<and> length (statBuffers' s) = 0
             \<and> length (frameInfo' s) = 1 \<and> \<not> pool_balance 2 s)"
  by code_simp

section \<open>Completion in a streaming session\<close>
























































theorem completeRequest_at_most_once_witness:
  "frames_wf (frameInfo' idle) \<and> scan_request 7 (frameInfo' idle) = None
   \<and> admissions 7 happy_path = 1
   \<and> (\<exists>s'. run idle happy_path = Inr s' \<and> completions 7 s' = 1
          \<and> scan_request 7 (frameInfo' s') = None
          \<and> tryCompleteRequest s' 7 = Inr (LOG ''Can not locate info from request'' s'))"
proof -
  have wf: "frames_wf (frameInfo' idle)" by (simp add: idle_def frames_wf_def)
  have none: "scan_request 7 (frameInfo' idle) = None" by (simp add: idle_def)
  have adm: "admissions 7 happy_path = 1" by code_simp
  have c0: "completions 7 idle = 0" by (simp add: completions_def idle_def)
  have "ends_in idle happy_path (\<lambda>s. completions 7 s = 1 \<and> activeCamera' s = Some 1)"
    by code_simp
  then obtain s' where run: "run idle happy_path = Inr s'" and c1: "completions 7 s' = 1"
    and a: "activeCamera' s' = Some 1"
    using ends_inD by blast
  from completeRequest_at_most_once [OF wf none run] adm c0 c1 a
  have "scan_request 7 (frameInfo' s') = None
        \<and> tryCompleteRequest s' 7 = Inr (LOG ''Can not locate info from request'' s')"
    by simp
  with wf none adm run c1 show ?thesis by blast
qed

theorem pool_balance_kept_witness:
  "paramBuffers' idle = [] \<and> statBuffers' idle = [] \<and> frameInfo' idle = []
   \<and> fst (allocateBuffers idle InternalMemory 1 0 0 0) = 0
   \<and> pool_balance 2 (snd (allocateBuffers idle InternalMemory 1 0 0 0))
   \<and> streaming_event (EvQueueRequest 1 7)
   \<and> (\<exists>s s'. run idle (butlast admitted) = Inr s \<and> pool_balance 2 s
          \<and> admits_fresh s (EvQueueRequest 1 7) \<and> step s (EvQueueRequest 1 7) = Inr s'
          \<and> pool_balance 2 s' \<and> length (frameInfo' s') = 1)"
proof -
  have i: "paramBuffers' idle = []" "statBuffers' idle = []" "frameInfo' idle = []"
    by (simp_all add: idle_def)
  have r: "fst (allocateBuffers idle InternalMemory 1 0 0 0) = 0"
    by (simp add: allocateBuffers_def Let_def)
  then have a: "allocateBuffers idle InternalMemory 1 0 0 0
      = (0, snd (allocateBuffers idle InternalMemory 1 0 0 0))"
    by (simp add: prod_eq_iff)
  have u: "unat (1 + 1 :: u32) = 2" by simp
  from pool_balance_kept [of idle InternalMemory 1 0 0 0 "snd (allocateBuffers idle InternalMemory 1 0 0 0)"]
    i a u
  have b1: "pool_balance 2 (snd (allocateBuffers idle InternalMemory 1 0 0 0))" by simp
  have "ends_in idle (butlast admitted)
      (\<lambda>s. pool_balance 2 s \<and> frames_wf (frameInfo' s) \<and> admits_fresh s (EvQueueRequest 1 7)
           \<and> (case step s (EvQueueRequest 1 7) of Inl e \<Rightarrow> False
               | Inr s' \<Rightarrow> length (frameInfo' s') = 1))"
    by code_simp
  then obtain s where s: "run idle (butlast admitted) = Inr s" "pool_balance 2 s"
    "frames_wf (frameInfo' s)" "admits_fresh s (EvQueueRequest 1 7)"
    and c: "case step s (EvQueueRequest 1 7) of Inl e \<Rightarrow> False
               | Inr s' \<Rightarrow> length (frameInfo' s') = 1"
    using ends_inD by blast
  from c obtain s' where s': "step s (EvQueueRequest 1 7) = Inr s'" "length (frameInfo' s') = 1"
    by (cases "step s (EvQueueRequest 1 7)") simp_all
  have ev: "streaming_event (EvQueueRequest 1 7)" by simp
  from pool_balance_kept [of _ _ _ _ _ _ _ 2 s _ _ _ _ _ "EvQueueRequest 1 7" s'] s s'(1) ev
  have "pool_balance 2 s'" by blast
  with i r b1 ev s s' show ?thesis by blast
qed


end
